theory Spec2Isabelle
  imports Main "HOL-Library.AList"
begin

section \<open>The FURI router: route table, registration, mounting and dispatch\<close>

text \<open>
  A shallow embedding of \<^verbatim>\<open>src/lib/furi-router.ts\<close> (class \<^verbatim>\<open>FuriRouter\<close>).
  JavaScript strings are modelled as \<^typ>\<open>string\<close>, arrays as lists, and the plain objects
  used as dictionaries as association lists of their own properties, with pairwise
  distinct keys, in insertion order; the properties they inherit are modelled where the
  code reads a property by name. Mutation is explicit state passing; an exception is the
  \<open>Abrupt\<close> completion below, which carries the state reached when the exception was
  thrown.
  Handler functions are values: every router of the model owns its tables (arrays shared
  between routers after a mount are copied), and logging is left out.
\<close>

subsection \<open>Strings\<close>

text \<open>\<^verbatim>\<open>s.split(c)\<close> for a one-character separator: always at least one piece.\<close>

fun split :: "char \<Rightarrow> string \<Rightarrow> string list" where
  "split c [] = [[]]"
| "split c (x # xs) =
     (if x = c then [] # split c xs
      else (case split c xs of [] \<Rightarrow> [[x]] | y # ys \<Rightarrow> (x # y) # ys))"

text \<open>\<^verbatim>\<open>a.join('/')\<close>.\<close>

fun join :: "string list \<Rightarrow> string" where
  "join [] = []"
| "join [x] = x"
| "join (x # y # ys) = x @ CHR ''/'' # join (y # ys)"

text \<open>The regular-expression class \<^verbatim>\<open>\w\<close> (without the unicode flag): letters, digits, underscore.\<close>

definition wordChar :: "char \<Rightarrow> bool" where
  "wordChar c =
     (let n = (of_char c :: nat)
      in (97 \<le> n \<and> n \<le> 122) \<or> (65 \<le> n \<and> n \<le> 90) \<or> (48 \<le> n \<and> n \<le> 57) \<or> n = 95)"

text \<open>The class \<^verbatim>\<open>[\w-.~]\<close> of a named segment's capturing group.\<close>

definition segmentChar :: "char \<Rightarrow> bool" where
  "segmentChar c = (wordChar c \<or> c = CHR ''-'' \<or> c = CHR ''.'' \<or> c = CHR ''~'')"

text \<open>
  \<^verbatim>\<open>/^\/?([~\w/.-]+)\/?$/.test(uri)\<close>. The two optional slashes belong to the class
  themselves, so the expression accepts exactly the non-empty strings over the class.
\<close>

definition regexCheckStaticURL :: "string \<Rightarrow> bool" where
  "regexCheckStaticURL uri = (uri \<noteq> [] \<and> list_all (\<lambda>c. segmentChar c \<or> c = CHR ''/'') uri)"

text \<open>\<^verbatim>\<open>/^\/?([:~\w/.-]+)\/?$/.test(uri)\<close>, likewise.\<close>

definition regexCheckNamedPath :: "string \<Rightarrow> bool" where
  "regexCheckNamedPath uri =
     (uri \<noteq> [] \<and> list_all (\<lambda>c. segmentChar c \<or> c = CHR ''/'' \<or> c = CHR '':'') uri)"

text \<open>\<^verbatim>\<open>token.startsWith(':')\<close>, also written \<^verbatim>\<open>keyNames[i][0] === ':'\<close>.\<close>

definition startsWithColon :: "string \<Rightarrow> bool" where
  "startsWithColon s = (case s of [] \<Rightarrow> False | c # _ \<Rightarrow> c = CHR '':'')"

text \<open>\<^verbatim>\<open>s.replace(/\/$/, '')\<close>: one trailing slash is removed.\<close>

definition stripTrailingSlash :: "string \<Rightarrow> string" where
  "stripTrailingSlash s = (if s \<noteq> [] \<and> last s = CHR ''/'' then butlast s else s)"

subsection \<open>Completions\<close>

datatype error = Error string | TypeError | SyntaxError

text \<open>
  A call either returns a value or throws; both leave a state behind, since everything the
  call mutated before throwing stays mutated.
\<close>

datatype ('v, 's) completion = Normal 'v 's | Abrupt error 's

subsection \<open>Plain objects\<close>

text \<open>
  The static map of a route map and the parameter bag of a request are plain objects
  (\<^verbatim>\<open>{}\<close>), read and written with \<^verbatim>\<open>obj[k]\<close>. An association list holds the own
  properties of such an object. A read of \<^verbatim>\<open>obj[k]\<close> that finds no own property goes on to
  \<^verbatim>\<open>Object.prototype\<close>, whose properties are the names below; their values are functions
  (for \<^verbatim>\<open>__proto__\<close>, the prototype itself), so each of them is truthy and none has a
  property \<^verbatim>\<open>callbacks\<close>.
\<close>

definition objectPrototypeNames :: "string list" where
  "objectPrototypeNames =
     [''constructor'', ''__defineGetter__'', ''__defineSetter__'', ''hasOwnProperty'',
      ''__lookupGetter__'', ''__lookupSetter__'', ''isPrototypeOf'', ''propertyIsEnumerable'',
      ''toString'', ''valueOf'', ''__proto__'', ''toLocaleString'']"

datatype 'v property = OwnProperty 'v | InheritedProperty | NoProperty

definition getProperty :: "(string \<times> 'v) list \<Rightarrow> string \<Rightarrow> 'v property" where
  "getProperty obj k =
     (case map_of obj k of
        Some v \<Rightarrow> OwnProperty v
      | None \<Rightarrow> if k \<in> set objectPrototypeNames then InheritedProperty else NoProperty)"

text \<open>
  An assignment \<^verbatim>\<open>obj[k] = v\<close> creates or changes an own property, except for the name
  \<^verbatim>\<open>__proto__\<close>: that is an accessor of \<^verbatim>\<open>Object.prototype\<close>, whose setter replaces the
  prototype when \<open>v\<close> is an object and does nothing otherwise. In neither case does the
  object get an own property, so \<^verbatim>\<open>__proto__\<close> is never a key of an association list
  built by assignments.
\<close>

definition assignProperty :: "string \<Rightarrow> 'v \<Rightarrow> (string \<times> 'v) list \<Rightarrow> (string \<times> 'v) list" where
  "assignProperty k v obj = (if k = ''__proto__'' then obj else AList.update k v obj)"

subsection \<open>Data model\<close>

text \<open>
  \<^verbatim>\<open>NamedRouteCallback\<close>, the entry of a partition bucket. The type parameter is the type of
  handler functions.
\<close>

record 'h NamedRouteCallback =
  key :: string
  params :: "string list"
  callbacks :: "'h list"
  pathNames :: "string list"
  useRegex :: bool

text \<open>
  \<^verbatim>\<open>RouteMap\<close>. A \<^verbatim>\<open>StaticRouteCallback\<close> is an object with the single field
  \<^verbatim>\<open>callbacks\<close>; it is modelled by that field's value. The partition map is keyed by
  numbers.
\<close>

record 'h RouteMap =
  namedRoutePartitionMap :: "(nat \<times> 'h NamedRouteCallback list) list"
  staticRouteMap :: "(string \<times> 'h list) list"

text \<open>
  The enumeration \<^verbatim>\<open>HttpMapIndex\<close> is declared outside this file; its values are a
  parameter of the model.
\<close>

record HttpMapIndex =
  MIDDLEWARE :: nat
  GET :: nat
  POST :: nat
  PUT :: nat
  PATCH :: nat
  DELETE :: nat

definition TopLevelMiddleware :: string where
  "TopLevelMiddleware = ''/''"

text \<open>
  The request, as far as the router reads and writes it. A parameter bag is a plain
  object whose values are strings or \<^verbatim>\<open>undefined\<close>; it is modelled by its own properties,
  as a function from names, \<open>None\<close> standing for \<^verbatim>\<open>undefined\<close>. \<open>request_params\<close> is
  \<open>None\<close> while \<^verbatim>\<open>request.params\<close> is not an object. \<open>request_query\<close> holds the text
  handed to \<^verbatim>\<open>URLSearchParams\<close>.
\<close>

type_synonym bag = "string \<Rightarrow> string option"

text \<open>
  \<^verbatim>\<open>params[name] = v\<close> on a bag, \<open>v\<close> being a string or \<^verbatim>\<open>undefined\<close>: the setter of
  \<^verbatim>\<open>__proto__\<close> ignores such a value.
\<close>

definition assignParam :: "string \<Rightarrow> string option \<Rightarrow> bag \<Rightarrow> bag" where
  "assignParam name v b = (if name = ''__proto__'' then b else b(name := v))"

record HttpRequest =
  request_method :: string
  request_url :: string
  request_params :: "bag option"
  request_query :: "string option"

text \<open>
  The response object belongs to the HTTP server. It is modelled by the sequence of method
  calls made on it: \<^verbatim>\<open>writeHead(status, message?, headers)\<close>, \<^verbatim>\<open>end(chunk?)\<close>, and
  whatever else a handler calls (a method name with its arguments).
\<close>

datatype responseCall =
    WriteHead nat "string option" "(string \<times> string) list"
  | End "string option"
  | Call string "string list"

type_synonym HttpResponse = "responseCall list"

text \<open>
  \<^verbatim>\<open>ApplicationContext\<close>: what a handler receives. \<open>app\<close> stands for everything else a
  handler can read or change.
\<close>

record 'a ApplicationContext =
  request :: HttpRequest
  response :: HttpResponse
  app :: 'a

text \<open>A handler returns a value, of which the router only tests the truthiness, or throws.\<close>

type_synonym 'a HandlerFunction =
  "'a ApplicationContext \<Rightarrow> (bool, 'a ApplicationContext) completion"

text \<open>
  The outcome of \<^verbatim>\<open>RegExp(key).exec(uri)\<close>: a syntax error in \<open>key\<close>, \<^verbatim>\<open>null\<close>, or the
  capture groups 1, 2, ... of the match (\<open>None\<close> for a group that did not take part).
  The regular-expression engine is a parameter of the model.
\<close>

datatype regexResult = RegexSyntaxError | RegexNull | RegexMatch "string option list"

type_synonym regExp = "string \<Rightarrow> string \<Rightarrow> regexResult"

subsection \<open>Matching\<close>

text \<open>\<^verbatim>\<open>createNamedRouteSearchKey\<close>: the loop over the tokens, then the function.\<close>

definition captureGroup :: string where
  "captureGroup = ''(['' @ [CHR 0x5C] @ ''w-.~]+)''"

fun searchKeyLoop :: "string list \<Rightarrow> string list \<times> string \<Rightarrow> string list \<times> string" where
  "searchKeyLoop [] (ps, k) = (ps, k)"
| "searchKeyLoop (token # tokens) (ps, k) =
     (if startsWithColon token
      then searchKeyLoop tokens (ps @ [drop 1 token], k @ ''/'' @ captureGroup)
      else searchKeyLoop tokens (ps, k @ ''/'' @ token))"

definition createNamedRouteSearchKey :: "string list \<Rightarrow> string list \<times> string" where
  "createNamedRouteSearchKey tokens =
     (if tokens = [] then ([], [])
      else (case searchKeyLoop tokens ([], []) of (ps, k) \<Rightarrow> (ps, drop 1 k)))"

text \<open>\<^verbatim>\<open>request.params[name] = value\<close>: a TypeError when \<^verbatim>\<open>request.params\<close> is undefined.\<close>

definition setParam :: "string \<Rightarrow> string option \<Rightarrow> HttpRequest \<Rightarrow> (unit, HttpRequest) completion" where
  "setParam name v r =
     (case request_params r of
        None \<Rightarrow> Abrupt TypeError r
      | Some b \<Rightarrow> Normal () (r\<lparr>request_params := Some (assignParam name v b)\<rparr>))"

text \<open>
  \<^verbatim>\<open>attachPathParamsToRequestIfExists\<close>. The loop assigns \<^verbatim>\<open>match[i + 1]\<close> to the
  \<open>i\<close>-th parameter name; reading past the end of the match array gives \<^verbatim>\<open>undefined\<close>.
\<close>

fun attachLoop :: "string list \<Rightarrow> nat \<Rightarrow> string option list \<Rightarrow> HttpRequest \<Rightarrow> (unit, HttpRequest) completion" where
  "attachLoop [] i groups r = Normal () r"
| "attachLoop (segment # segments) i groups r =
     (case setParam segment (if i < length groups then groups ! i else None) r of
        Abrupt e r' \<Rightarrow> Abrupt e r'
      | Normal _ r' \<Rightarrow> attachLoop segments (Suc i) groups r')"

definition attachPathParamsToRequestIfExists ::
  "regExp \<Rightarrow> string \<Rightarrow> ('h, 'b) NamedRouteCallback_scheme \<Rightarrow> HttpRequest \<Rightarrow> (bool, HttpRequest) completion" where
  "attachPathParamsToRequestIfExists rx uri pk r =
     (if key pk = [] then Normal False r
      else (case rx (key pk) uri of
              RegexSyntaxError \<Rightarrow> Abrupt SyntaxError r
            | RegexNull \<Rightarrow> Normal False r
            | RegexMatch groups \<Rightarrow>
                (case attachLoop (params pk) 0 groups r of
                   Abrupt e r' \<Rightarrow> Abrupt e r'
                 | Normal _ r' \<Rightarrow> Normal True r')))"

text \<open>
  \<^verbatim>\<open>fastPathMatch\<close>. The loop runs from the last segment to the first; the counter of
  \<open>fastPathLoop\<close> is the source's \<open>i + 1\<close>.
\<close>

fun fastPathLoop :: "string list \<Rightarrow> string list \<Rightarrow> nat \<Rightarrow> HttpRequest \<Rightarrow> (bool, HttpRequest) completion" where
  "fastPathLoop names keyNames 0 r = Normal True r"
| "fastPathLoop names keyNames (Suc i) r =
     (if names ! i \<noteq> keyNames ! i \<and> \<not> startsWithColon (keyNames ! i) then Normal False r
      else if startsWithColon (keyNames ! i) then
        (case setParam (drop 1 (keyNames ! i)) (Some (names ! i)) r of
           Abrupt e r' \<Rightarrow> Abrupt e r'
         | Normal _ r' \<Rightarrow> fastPathLoop names keyNames i r')
      else fastPathLoop names keyNames i r)"

definition fastPathMatch :: "string list \<Rightarrow> string list \<Rightarrow> HttpRequest \<Rightarrow> (bool, HttpRequest) completion" where
  "fastPathMatch names keyNames r =
     (if length keyNames = length names
      then fastPathLoop names keyNames (length names) r
      else Normal False r)"

subsection \<open>Dispatch\<close>

text \<open>
  \<^verbatim>\<open>response.end()\<close>, and the not-found response written in three places of the source;
  \<open>apiVersion\<close> stands for \<^verbatim>\<open>Furi.getApiVersion()\<close>.
\<close>

definition endResponse :: "'a ApplicationContext \<Rightarrow> 'a ApplicationContext" where
  "endResponse c = c\<lparr>response := response c @ [End None]\<rparr>"

definition routeNotFound :: "string \<Rightarrow> 'a ApplicationContext \<Rightarrow> 'a ApplicationContext" where
  "routeNotFound apiVersion c =
     c\<lparr>response := response c @
         [WriteHead 404 None [(''Content-Type'', ''text/plain''), (''User-Agent'', apiVersion)],
          End (Some ''Route not found'')]\<rparr>"

text \<open>\<^verbatim>\<open>callTopLevelMiddlewares\<close>: every handler is called, its result ignored.\<close>

fun callEach :: "'a HandlerFunction list \<Rightarrow> 'a ApplicationContext \<Rightarrow> (unit, 'a ApplicationContext) completion" where
  "callEach [] c = Normal () c"
| "callEach (callback # chain) c =
     (case callback c of
        Abrupt e c' \<Rightarrow> Abrupt e c'
      | Normal _ c' \<Rightarrow> callEach chain c')"

definition callTopLevelMiddlewares ::
  "HttpMapIndex \<Rightarrow> 'a HandlerFunction RouteMap list \<Rightarrow> 'a ApplicationContext \<Rightarrow> (unit, 'a ApplicationContext) completion" where
  "callTopLevelMiddlewares ix httpMethodMap c =
     (if MIDDLEWARE ix < length httpMethodMap
      then (case map_of (staticRouteMap (httpMethodMap ! MIDDLEWARE ix)) TopLevelMiddleware of
              None \<Rightarrow> Normal () c
            | Some middleware_chain \<Rightarrow> callEach middleware_chain c)
      else Abrupt TypeError c)"

text \<open>
  The loop over a matched callback chain (written twice in \<^verbatim>\<open>processHTTPMethod\<close>):
  a truthy result ends the response and leaves the loop.
\<close>

fun runChain :: "'a HandlerFunction list \<Rightarrow> 'a ApplicationContext \<Rightarrow> (unit, 'a ApplicationContext) completion" where
  "runChain [] c = Normal () c"
| "runChain (callback # chain) c =
     (case callback c of
        Abrupt e c' \<Rightarrow> Abrupt e c'
      | Normal rv c' \<Rightarrow> if rv then Normal () (endResponse c') else runChain chain c')"

text \<open>
  How the \<^verbatim>\<open>try\<close> block of \<^verbatim>\<open>processHTTPMethod\<close> is left: by a \<^verbatim>\<open>return\<close>, by reaching its
  end, or by an exception.
\<close>

datatype 's flow = Return 's | Fall 's | Raise 's

text \<open>
  The test of one bucket entry:
  \<^verbatim>\<open>!e.useRegex && fastPathMatch(..) || e.useRegex && attachPathParamsToRequestIfExists(..)\<close>.
\<close>

definition matchEntry ::
  "regExp \<Rightarrow> string \<Rightarrow> string list \<Rightarrow> ('h, 'b) NamedRouteCallback_scheme \<Rightarrow> HttpRequest \<Rightarrow> (bool, HttpRequest) completion" where
  "matchEntry rx URL names e r =
     (if useRegex e then attachPathParamsToRequestIfExists rx URL e r
      else fastPathMatch names (pathNames e) r)"

text \<open>The loop over the entries of the bucket.\<close>

fun scanBucket ::
  "regExp \<Rightarrow> HttpMapIndex \<Rightarrow> 'a HandlerFunction RouteMap list \<Rightarrow> string \<Rightarrow> string list \<Rightarrow>
   'a HandlerFunction NamedRouteCallback list \<Rightarrow> 'a ApplicationContext \<Rightarrow> 'a ApplicationContext flow" where
  "scanBucket rx ix httpMethodMap URL names [] c = Fall c"
| "scanBucket rx ix httpMethodMap URL names (e # es) c =
     (case matchEntry rx URL names e (request c) of
        Abrupt _ r' \<Rightarrow> Raise (c\<lparr>request := r'\<rparr>)
      | Normal False r' \<Rightarrow> scanBucket rx ix httpMethodMap URL names es (c\<lparr>request := r'\<rparr>)
      | Normal True r' \<Rightarrow>
          (case callTopLevelMiddlewares ix httpMethodMap (c\<lparr>request := r'\<rparr>) of
             Abrupt _ c' \<Rightarrow> Raise c'
           | Normal _ c' \<Rightarrow>
               if length (callbacks e) > 0
               then (case runChain (callbacks e) c' of
                       Abrupt _ c'' \<Rightarrow> Raise c''
                     | Normal _ c'' \<Rightarrow> Return c'')
               else scanBucket rx ix httpMethodMap URL names es c'))"

text \<open>\<^verbatim>\<open>if (!request.params) { request.params = {}; }\<close>\<close>

definition ensureParams :: "'a ApplicationContext \<Rightarrow> 'a ApplicationContext" where
  "ensureParams c =
     (if request_params (request c) = None
      then c\<lparr>request := (request c)\<lparr>request_params := Some (\<lambda>_. None)\<rparr>\<rparr>
      else c)"

text \<open>
  The \<^verbatim>\<open>try\<close> block, for the route map of the method and the normalised URL. The test
  \<^verbatim>\<open>routeMap.staticRouteMap[URL]\<close> also succeeds for a URL that names an inherited
  property; the chain read from it is then \<^verbatim>\<open>undefined\<close>, and the block returns after the
  top-level middlewares.
\<close>

definition tryBlock ::
  "regExp \<Rightarrow> string \<Rightarrow> HttpMapIndex \<Rightarrow> 'a HandlerFunction RouteMap list \<Rightarrow> nat \<Rightarrow> string \<Rightarrow> bool \<Rightarrow>
   'a ApplicationContext \<Rightarrow> 'a ApplicationContext flow" where
  "tryBlock rx apiVersion ix httpMethodMap mapIndex URL throwOnNotFound c =
     (if mapIndex < length httpMethodMap then
        (let routeMap = httpMethodMap ! mapIndex in
         case getProperty (staticRouteMap routeMap) URL of
           OwnProperty callback_chain \<Rightarrow>
             (case callTopLevelMiddlewares ix httpMethodMap c of
                Abrupt _ c' \<Rightarrow> Raise c'
              | Normal _ c' \<Rightarrow>
                  (case runChain callback_chain c' of
                     Abrupt _ c'' \<Rightarrow> Raise c''
                   | Normal _ c'' \<Rightarrow> Return c''))
         | InheritedProperty \<Rightarrow>
             (case callTopLevelMiddlewares ix httpMethodMap c of
                Abrupt _ c' \<Rightarrow> Raise c'
              | Normal _ c' \<Rightarrow> Return c')
         | NoProperty \<Rightarrow>
             (let names = drop 1 (split (CHR ''/'') URL);
                  bucket = length names
              in case map_of (namedRoutePartitionMap routeMap) bucket of
                   Some namedRouteParams \<Rightarrow>
                     (let c1 = ensureParams c
                      in if length namedRouteParams = 0 then Return c1
                         else scanBucket rx ix httpMethodMap URL names namedRouteParams c1)
                 | None \<Rightarrow>
                     if throwOnNotFound then Return (routeNotFound apiVersion c) else Fall c))
      else Raise c)"

text \<open>
  \<^verbatim>\<open>processHTTPMethod\<close>: the query string is split off and attached to the request, one
  trailing slash is removed from the path, the \<^verbatim>\<open>try\<close> block is run; an exception, and
  reaching the end with \<open>throwOnNotFound\<close>, write the not-found response. The calls on
  the response are recorded; they are taken not to throw themselves.
\<close>

definition normalizeURL :: "string \<Rightarrow> string" where
  "normalizeURL u =
     (if length u > 1 \<and> last u = CHR ''/'' then take (length u - 1) u else u)"

definition attachQuery :: "'a ApplicationContext \<Rightarrow> 'a ApplicationContext" where
  "attachQuery c =
     (let urlQuery = split (CHR ''?'') (request_url (request c))
      in if length urlQuery > 1 \<and> length (urlQuery ! 1) > 0
         then c\<lparr>request := (request c)\<lparr>request_query := Some (urlQuery ! 1)\<rparr>\<rparr>
         else c)"

definition requestPath :: "'a ApplicationContext \<Rightarrow> string" where
  "requestPath c = normalizeURL (split (CHR ''?'') (request_url (request c)) ! 0)"

definition processHTTPMethod ::
  "regExp \<Rightarrow> string \<Rightarrow> HttpMapIndex \<Rightarrow> 'a HandlerFunction RouteMap list \<Rightarrow> nat \<Rightarrow> bool \<Rightarrow>
   'a ApplicationContext \<Rightarrow> 'a ApplicationContext" where
  "processHTTPMethod rx apiVersion ix httpMethodMap mapIndex throwOnNotFound c =
     (case tryBlock rx apiVersion ix httpMethodMap mapIndex (requestPath c) throwOnNotFound (attachQuery c) of
        Return c' \<Rightarrow> c'
      | Raise c' \<Rightarrow> routeNotFound apiVersion c'
      | Fall c' \<Rightarrow> if throwOnNotFound then routeNotFound apiVersion c' else c')"

text \<open>
  \<^verbatim>\<open>dispatch\<close>: the switch selects the index of the method, in either spelling; any other
  method is answered with status 501.
\<close>

definition notImplemented :: "string \<Rightarrow> 'a ApplicationContext \<Rightarrow> 'a ApplicationContext" where
  "notImplemented apiVersion c =
     c\<lparr>response := response c @
         [WriteHead 501 (Some ''HTTP Dispatch method not implemented'')
            [(''Content-Type'', ''text/plain''), (''User-Agent'', apiVersion)],
          End None]\<rparr>"

definition methodIndex :: "HttpMapIndex \<Rightarrow> string \<Rightarrow> nat option" where
  "methodIndex ix m =
     (if m = ''GET'' \<or> m = ''get'' then Some (GET ix)
      else if m = ''POST'' \<or> m = ''post'' then Some (POST ix)
      else if m = ''PUT'' \<or> m = ''put'' then Some (PUT ix)
      else if m = ''PATCH'' \<or> m = ''patch'' then Some (PATCH ix)
      else if m = ''DELETE'' \<or> m = ''delete'' then Some (DELETE ix)
      else None)"

definition dispatch ::
  "regExp \<Rightarrow> string \<Rightarrow> HttpMapIndex \<Rightarrow> 'a HandlerFunction RouteMap list \<Rightarrow>
   'a ApplicationContext \<Rightarrow> 'a ApplicationContext" where
  "dispatch rx apiVersion ix httpMethodMap c =
     (case methodIndex ix (request_method (request c)) of
        Some mapIndex \<Rightarrow> processHTTPMethod rx apiVersion ix httpMethodMap mapIndex True c
      | None \<Rightarrow> notImplemented apiVersion c)"

subsection \<open>Enumerating and copying the properties of an object\<close>

text \<open>
  \<^verbatim>\<open>Object.entries\<close> lists the keys that are canonical array indices first, in ascending
  numeric order, then the other keys in insertion order. The keys of a partition map are
  all array indices.
\<close>

definition isDigit :: "char \<Rightarrow> bool" where
  "isDigit c = (48 \<le> (of_char c :: nat) \<and> (of_char c :: nat) \<le> 57)"

definition numericValue :: "string \<Rightarrow> nat" where
  "numericValue s = foldl (\<lambda>n c. 10 * n + (of_char c - 48)) 0 s"

definition isArrayIndex :: "string \<Rightarrow> bool" where
  "isArrayIndex s =
     (s \<noteq> [] \<and> list_all isDigit s \<and> (s = ''0'' \<or> hd s \<noteq> CHR ''0'') \<and> numericValue s < 4294967295)"

definition objectEntries :: "(string \<times> 'v) list \<Rightarrow> (string \<times> 'v) list" where
  "objectEntries obj =
     sort_key (\<lambda>kv. numericValue (fst kv)) (filter (\<lambda>kv. isArrayIndex (fst kv)) obj)
     @ filter (\<lambda>kv. \<not> isArrayIndex (fst kv)) obj"

definition bucketEntries :: "(nat \<times> 'v) list \<Rightarrow> (nat \<times> 'v) list" where
  "bucketEntries obj = sort_key fst obj"

text \<open>
  \<^verbatim>\<open>Object.assign(target, source)\<close>, given the entries of the source, which are own
  properties and so never named \<^verbatim>\<open>__proto__\<close>.
\<close>

definition objectAssign :: "('k \<times> 'v) list \<Rightarrow> ('k \<times> 'v) list \<Rightarrow> ('k \<times> 'v) list" where
  "objectAssign target entries = foldl (\<lambda>t kv. AList.update (fst kv) (snd kv) t) target entries"

subsection \<open>Registration\<close>

text \<open>
  The state of a router is its \<^verbatim>\<open>httpMethodMap\<close>, one route map per index. The constructor
  pushes one empty route map per key of \<^verbatim>\<open>HttpMapIndex\<close>.
\<close>

definition emptyRouteMap :: "'h RouteMap" where
  "emptyRouteMap = \<lparr>namedRoutePartitionMap = [], staticRouteMap = []\<rparr>"

definition newRouter :: "nat \<Rightarrow> 'h RouteMap list" where
  "newRouter indexKeys = replicate indexKeys emptyRouteMap"

text \<open>
  \<^verbatim>\<open>buildRequestMap\<close>. For a static pattern that names an inherited property and is not
  an own key, \<^verbatim>\<open>routeMap.staticRouteMap[uri]\<close> is truthy and the loop pushes onto its
  \<^verbatim>\<open>callbacks\<close>, which is \<^verbatim>\<open>undefined\<close>: a TypeError at the first handler.
\<close>

definition buildRequestMap ::
  "nat \<Rightarrow> string \<Rightarrow> 'h list \<Rightarrow> 'h RouteMap list \<Rightarrow> (unit, 'h RouteMap list) completion" where
  "buildRequestMap mapIndex uri cbs httpMethodMap =
     (if mapIndex < length httpMethodMap then
        (let routeMap = httpMethodMap ! mapIndex in
         if regexCheckStaticURL uri then
           (case getProperty (staticRouteMap routeMap) uri of
              NoProperty \<Rightarrow>
                Normal () (httpMethodMap[mapIndex :=
                  routeMap\<lparr>staticRouteMap := AList.update uri cbs (staticRouteMap routeMap)\<rparr>])
            | OwnProperty chain \<Rightarrow>
                Normal () (httpMethodMap[mapIndex :=
                  routeMap\<lparr>staticRouteMap := AList.update uri (chain @ cbs) (staticRouteMap routeMap)\<rparr>])
            | InheritedProperty \<Rightarrow>
                if cbs = [] then Normal () httpMethodMap else Abrupt TypeError httpMethodMap)
         else
           (let tokens = split (CHR ''/'') uri;
                bucket = length tokens - 1;
                entry = \<lparr>key = snd (createNamedRouteSearchKey tokens),
                         params = fst (createNamedRouteSearchKey tokens),
                         callbacks = cbs,
                         pathNames = drop 1 tokens,
                         useRegex = (\<not> regexCheckNamedPath uri)\<rparr>
            in case map_of (namedRoutePartitionMap routeMap) bucket of
                 None \<Rightarrow>
                   Normal () (httpMethodMap[mapIndex :=
                     routeMap\<lparr>namedRoutePartitionMap :=
                       AList.update bucket [entry] (namedRoutePartitionMap routeMap)\<rparr>])
               | Some entries \<Rightarrow>
                   Normal () (httpMethodMap[mapIndex :=
                     routeMap\<lparr>namedRoutePartitionMap :=
                       AList.update bucket (entries @ [entry]) (namedRoutePartitionMap routeMap)\<rparr>])))
      else Abrupt TypeError httpMethodMap)"

text \<open>Sequencing of calls that mutate the router: an exception ends the sequence.\<close>

fun andThen :: "(unit, 's) completion \<Rightarrow> ('s \<Rightarrow> (unit, 's) completion) \<Rightarrow> (unit, 's) completion" where
  "andThen (Normal _ s) f = f s"
| "andThen (Abrupt e s) f = Abrupt e s"

text \<open>\<^verbatim>\<open>get\<close>, \<^verbatim>\<open>post\<close>, \<^verbatim>\<open>put\<close>, \<^verbatim>\<open>patch\<close>, \<^verbatim>\<open>delete\<close> differ in the index only.\<close>

definition registerMethod ::
  "nat \<Rightarrow> string \<Rightarrow> 'h list \<Rightarrow> 'h RouteMap list \<Rightarrow> (unit, 'h RouteMap list) completion" where
  "registerMethod mapIndex uri fn httpMethodMap =
     (if length fn = 0 then Abrupt (Error ''No callback function provided'') httpMethodMap
      else buildRequestMap mapIndex uri fn httpMethodMap)"

definition get :: "HttpMapIndex \<Rightarrow> string \<Rightarrow> 'h list \<Rightarrow> 'h RouteMap list \<Rightarrow> (unit, 'h RouteMap list) completion" where
  "get ix uri fn httpMethodMap = registerMethod (GET ix) uri fn httpMethodMap"

definition post :: "HttpMapIndex \<Rightarrow> string \<Rightarrow> 'h list \<Rightarrow> 'h RouteMap list \<Rightarrow> (unit, 'h RouteMap list) completion" where
  "post ix uri fn httpMethodMap = registerMethod (POST ix) uri fn httpMethodMap"

definition put :: "HttpMapIndex \<Rightarrow> string \<Rightarrow> 'h list \<Rightarrow> 'h RouteMap list \<Rightarrow> (unit, 'h RouteMap list) completion" where
  "put ix uri fn httpMethodMap = registerMethod (PUT ix) uri fn httpMethodMap"

definition patch :: "HttpMapIndex \<Rightarrow> string \<Rightarrow> 'h list \<Rightarrow> 'h RouteMap list \<Rightarrow> (unit, 'h RouteMap list) completion" where
  "patch ix uri fn httpMethodMap = registerMethod (PATCH ix) uri fn httpMethodMap"

definition delete :: "HttpMapIndex \<Rightarrow> string \<Rightarrow> 'h list \<Rightarrow> 'h RouteMap list \<Rightarrow> (unit, 'h RouteMap list) completion" where
  "delete ix uri fn httpMethodMap = registerMethod (DELETE ix) uri fn httpMethodMap"

definition all ::
  "HttpMapIndex \<Rightarrow> string \<Rightarrow> 'h list \<Rightarrow> 'h RouteMap list \<Rightarrow> (unit, 'h RouteMap list) completion" where
  "all ix uri fn httpMethodMap =
     (if length fn = 0 then Abrupt (Error ''No callback function provided'') httpMethodMap
      else andThen (get ix uri fn httpMethodMap) (\<lambda>m1.
           andThen (post ix uri fn m1) (\<lambda>m2.
           andThen (put ix uri fn m2) (\<lambda>m3.
           andThen (patch ix uri fn m3) (\<lambda>m4.
           delete ix uri fn m4)))))"

subsection \<open>Mounting\<close>

text \<open>
  \<^verbatim>\<open>mergeRouterMaps\<close>. For a target static map that is not empty, the loop reads
  \<^verbatim>\<open>this.httpMethodMap[i].staticRouteMap[k].callbacks\<close> for every key \<open>k\<close> of the source:
  a TypeError when the target has no such key (for the name of an inherited property the
  read gives \<^verbatim>\<open>undefined\<close>, and the call of \<^verbatim>\<open>concat\<close> on it throws the same).
\<close>

fun mergeStaticLoop :: "(string \<times> 'h list) list \<Rightarrow> (string \<times> 'h list) list \<Rightarrow> (unit, (string \<times> 'h list) list) completion" where
  "mergeStaticLoop [] target = Normal () target"
| "mergeStaticLoop ((k, v) # entries) target =
     (case map_of target k of
        None \<Rightarrow> Abrupt TypeError target
      | Some chain \<Rightarrow> mergeStaticLoop entries (AList.update k (chain @ v) target))"

fun mergeNamedLoop :: "(nat \<times> 'e list) list \<Rightarrow> (nat \<times> 'e list) list \<Rightarrow> (nat \<times> 'e list) list" where
  "mergeNamedLoop [] target = target"
| "mergeNamedLoop ((k, v) # entries) target =
     (case map_of target k of
        None \<Rightarrow> mergeNamedLoop entries target
      | Some es \<Rightarrow> mergeNamedLoop entries (AList.update k (es @ v) target))"

text \<open>The body of the loop of \<^verbatim>\<open>mergeRouterMaps\<close>, for one index.\<close>

definition mergeNamed :: "(nat \<times> 'e list) list \<Rightarrow> (nat \<times> 'e list) list \<Rightarrow> (nat \<times> 'e list) list" where
  "mergeNamed target source =
     (if length target = 0 then objectAssign target (bucketEntries source)
      else mergeNamedLoop (bucketEntries source) target)"

definition mergeRouteMap :: "'h RouteMap \<Rightarrow> 'h RouteMap \<Rightarrow> (unit, 'h RouteMap) completion" where
  "mergeRouteMap target source =
     (case (if length (staticRouteMap target) = 0
            then Normal () (objectAssign (staticRouteMap target) (objectEntries (staticRouteMap source)))
            else mergeStaticLoop (objectEntries (staticRouteMap source)) (staticRouteMap target)) of
        Abrupt e st \<Rightarrow> Abrupt e (target\<lparr>staticRouteMap := st\<rparr>)
      | Normal _ st \<Rightarrow>
          Normal () (target\<lparr>staticRouteMap := st,
                      namedRoutePartitionMap :=
                        mergeNamed (namedRoutePartitionMap target) (namedRoutePartitionMap source)\<rparr>))"

text \<open>
  The loop of \<^verbatim>\<open>mergeRouterMaps\<close> over the indices of the source: \<open>this.httpMethodMap[i]\<close>
  is undefined when the target is shorter.
\<close>

fun mergeRouterMaps :: "'h RouteMap list \<Rightarrow> 'h RouteMap list \<Rightarrow> (unit, 'h RouteMap list) completion" where
  "mergeRouterMaps target [] = Normal () target"
| "mergeRouterMaps [] (s # source) = Abrupt TypeError []"
| "mergeRouterMaps (t # target) (s # source) =
     (case mergeRouteMap t s of
        Abrupt e t' \<Rightarrow> Abrupt e (t' # target)
      | Normal _ t' \<Rightarrow>
          (case mergeRouterMaps target source of
             Abrupt e target' \<Rightarrow> Abrupt e (t' # target')
           | Normal _ target' \<Rightarrow> Normal () (t' # target')))"

text \<open>
  Mounting on a path, the second branch of \<^verbatim>\<open>use\<close>. \<open>pathJoin\<close> stands for Node's
  \<^verbatim>\<open>path.join\<close>. First the static keys of one index.
\<close>

definition mountStatic ::
  "(string \<Rightarrow> string \<Rightarrow> string) \<Rightarrow> string \<Rightarrow> nat \<Rightarrow> 'h RouteMap \<Rightarrow> 'h RouteMap list \<Rightarrow> (unit, 'h RouteMap list) completion" where
  "mountStatic pathJoin uri mapIndex source httpMethodMap =
     (let mapOfStaticRouteCallback =
            foldl (\<lambda>m kv. assignProperty
                     (if mapIndex = 0 then fst kv else stripTrailingSlash (pathJoin uri (fst kv))) (snd kv) m)
              [] (objectEntries (staticRouteMap source));
          changed = (staticRouteMap source \<noteq> [])
      in if changed then
           (if mapIndex < length httpMethodMap then
              Normal () (httpMethodMap[mapIndex := (httpMethodMap ! mapIndex)
                \<lparr>staticRouteMap := objectAssign (staticRouteMap (httpMethodMap ! mapIndex))
                                     (objectEntries mapOfStaticRouteCallback)\<rparr>])
            else Abrupt TypeError httpMethodMap)
         else Normal () httpMethodMap)"

text \<open>The entry rebuilt from the joined path, and its bucket.\<close>

definition remountEntry ::
  "(string \<Rightarrow> string \<Rightarrow> string) \<Rightarrow> string \<Rightarrow> 'h NamedRouteCallback \<Rightarrow> nat \<times> 'h NamedRouteCallback" where
  "remountEntry pathJoin uri e =
     (let keySrc = join (pathNames e);
          keyDest = stripTrailingSlash (pathJoin uri keySrc);
          tokens = split (CHR ''/'') keyDest
      in (length tokens - 1,
          \<lparr>key = snd (createNamedRouteSearchKey tokens),
           params = fst (createNamedRouteSearchKey tokens),
           callbacks = callbacks e,
           pathNames = drop 1 tokens,
           useRegex = (\<not> regexCheckNamedPath keyDest)\<rparr>))"

definition pushEntry :: "(nat \<times> 'e list) list \<Rightarrow> nat \<times> 'e \<Rightarrow> (nat \<times> 'e list) list" where
  "pushEntry m be =
     (case map_of m (fst be) of
        None \<Rightarrow> AList.update (fst be) [snd be] m
      | Some es \<Rightarrow> AList.update (fst be) (es @ [snd be]) m)"

text \<open>
  The loop over the buckets of the source: its state is \<open>mapOfNamedRouteCallback\<close>, the
  flag \<open>changed\<close> and the router; the assignment to the target is inside the loop.
\<close>

fun mountNamedLoop ::
  "(string \<Rightarrow> string \<Rightarrow> string) \<Rightarrow> string \<Rightarrow> nat \<Rightarrow> (nat \<times> 'h NamedRouteCallback list) list \<Rightarrow>
   (nat \<times> 'h NamedRouteCallback list) list \<Rightarrow> bool \<Rightarrow> 'h RouteMap list \<Rightarrow> (unit, 'h RouteMap list) completion" where
  "mountNamedLoop pathJoin uri mapIndex [] m changed httpMethodMap = Normal () httpMethodMap"
| "mountNamedLoop pathJoin uri mapIndex ((k, v) # buckets) m changed httpMethodMap =
     (let m' = foldl (\<lambda>acc e. pushEntry acc (remountEntry pathJoin uri e)) m v;
          changed' = (changed \<or> v \<noteq> [])
      in if changed' then
           (if mapIndex < length httpMethodMap then
              mountNamedLoop pathJoin uri mapIndex buckets m' changed'
                (httpMethodMap[mapIndex := (httpMethodMap ! mapIndex)
                   \<lparr>namedRoutePartitionMap :=
                      objectAssign (namedRoutePartitionMap (httpMethodMap ! mapIndex)) (bucketEntries m')\<rparr>])
            else Abrupt TypeError httpMethodMap)
         else mountNamedLoop pathJoin uri mapIndex buckets m' changed' httpMethodMap)"

text \<open>The loop over the indices of the mounted router.\<close>

fun mountLoop ::
  "(string \<Rightarrow> string \<Rightarrow> string) \<Rightarrow> string \<Rightarrow> nat \<Rightarrow> 'h RouteMap list \<Rightarrow> 'h RouteMap list \<Rightarrow> (unit, 'h RouteMap list) completion" where
  "mountLoop pathJoin uri mapIndex [] httpMethodMap = Normal () httpMethodMap"
| "mountLoop pathJoin uri mapIndex (source # routeMap) httpMethodMap =
     andThen (mountStatic pathJoin uri mapIndex source httpMethodMap) (\<lambda>m1.
     andThen (mountNamedLoop pathJoin uri mapIndex (bucketEntries (namedRoutePartitionMap source)) [] False m1) (\<lambda>m2.
     mountLoop pathJoin uri (Suc mapIndex) routeMap m2))"

text \<open>
  \<^verbatim>\<open>use\<close>, by the shape of its arguments: a router, a path and a router, handlers only
  (none at all when called without arguments), a path and handlers.
\<close>

datatype 'h useArguments =
    UseRouter "'h RouteMap list"
  | UseRouterAt string "'h RouteMap list"
  | UseHandlers "'h list"
  | UsePath string "'h list"

fun use ::
  "(string \<Rightarrow> string \<Rightarrow> string) \<Rightarrow> HttpMapIndex \<Rightarrow> 'h useArguments \<Rightarrow> 'h RouteMap list \<Rightarrow> (unit, 'h RouteMap list) completion" where
  "use pathJoin ix (UseRouter router) httpMethodMap = mergeRouterMaps httpMethodMap router"
| "use pathJoin ix (UseRouterAt uri router) httpMethodMap = mountLoop pathJoin uri 0 router httpMethodMap"
| "use pathJoin ix (UsePath uri fn) httpMethodMap =
     (if length fn = 0 then Abrupt (Error ''No middleware callback function provided'') httpMethodMap
      else all ix uri fn httpMethodMap)"
| "use pathJoin ix (UseHandlers fn) httpMethodMap =
     (if length fn = 0 then Abrupt (Error ''No Middleware callback function provided'') httpMethodMap
      else buildRequestMap (MIDDLEWARE ix) TopLevelMiddleware fn httpMethodMap)"

subsection \<open>Routers built through the public interface\<close>

text \<open>The router left behind by a call, whether it returned or threw.\<close>

fun stateOf :: "('v, 's) completion \<Rightarrow> 's" where
  "stateOf (Normal _ s) = s"
| "stateOf (Abrupt _ s) = s"

text \<open>
  The routers that the constructor and any sequence of calls of \<^verbatim>\<open>get\<close>, \<^verbatim>\<open>post\<close>,
  \<^verbatim>\<open>put\<close>, \<^verbatim>\<open>patch\<close>, \<^verbatim>\<open>delete\<close>, \<^verbatim>\<open>all\<close> and \<^verbatim>\<open>use\<close> produce; a mounted router is
  built the same way.
\<close>

inductive_set reachable ::
  "(string \<Rightarrow> string \<Rightarrow> string) \<Rightarrow> HttpMapIndex \<Rightarrow> nat \<Rightarrow> 'h RouteMap list set"
  for pathJoin :: "string \<Rightarrow> string \<Rightarrow> string" and ix :: HttpMapIndex and indexKeys :: nat where
  constructed: "newRouter indexKeys \<in> reachable pathJoin ix indexKeys"
| after_get: "r \<in> reachable pathJoin ix indexKeys \<Longrightarrow> stateOf (get ix uri fn r) \<in> reachable pathJoin ix indexKeys"
| after_post: "r \<in> reachable pathJoin ix indexKeys \<Longrightarrow> stateOf (post ix uri fn r) \<in> reachable pathJoin ix indexKeys"
| after_put: "r \<in> reachable pathJoin ix indexKeys \<Longrightarrow> stateOf (put ix uri fn r) \<in> reachable pathJoin ix indexKeys"
| after_patch: "r \<in> reachable pathJoin ix indexKeys \<Longrightarrow> stateOf (patch ix uri fn r) \<in> reachable pathJoin ix indexKeys"
| after_delete: "r \<in> reachable pathJoin ix indexKeys \<Longrightarrow> stateOf (delete ix uri fn r) \<in> reachable pathJoin ix indexKeys"
| after_all: "r \<in> reachable pathJoin ix indexKeys \<Longrightarrow> stateOf (all ix uri fn r) \<in> reachable pathJoin ix indexKeys"
| after_use_handlers:
    "r \<in> reachable pathJoin ix indexKeys \<Longrightarrow>
     stateOf (use pathJoin ix (UseHandlers fn) r) \<in> reachable pathJoin ix indexKeys"
| after_use_path:
    "r \<in> reachable pathJoin ix indexKeys \<Longrightarrow>
     stateOf (use pathJoin ix (UsePath uri fn) r) \<in> reachable pathJoin ix indexKeys"
| after_use_router:
    "r \<in> reachable pathJoin ix indexKeys \<Longrightarrow> router \<in> reachable pathJoin ix indexKeys \<Longrightarrow>
     stateOf (use pathJoin ix (UseRouter router) r) \<in> reachable pathJoin ix indexKeys"
| after_use_router_at:
    "r \<in> reachable pathJoin ix indexKeys \<Longrightarrow> router \<in> reachable pathJoin ix indexKeys \<Longrightarrow>
     stateOf (use pathJoin ix (UseRouterAt uri router) r) \<in> reachable pathJoin ix indexKeys"

text \<open>The partition invariant: an entry of bucket \<open>b\<close> has \<open>b\<close> path segments.\<close>

definition bucketInvariant :: "'h RouteMap list \<Rightarrow> bool" where
  "bucketInvariant httpMethodMap =
     (\<forall>routeMap \<in> set httpMethodMap. \<forall>(b, es) \<in> set (namedRoutePartitionMap routeMap).
        \<forall>e \<in> set es. length (pathNames e) = b)"

subsection \<open>The regular expressions compiled from named patterns\<close>

text \<open>
  \<^verbatim>\<open>RegExp(key).exec(uri)\<close> for the keys that \<^verbatim>\<open>createNamedRouteSearchKey\<close> builds from
  patterns over \<^verbatim>\<open>[:~\w/.-]\<close>: a sequence of literal characters, of dots (any character
  but a line terminator) and of the group \<^verbatim>\<open>([\w-.~]+)\<close>, a greedy capturing repetition.
  The expression is not anchored: the leftmost match is returned, and inside it the
  longest repetitions are tried first.
\<close>

datatype atom = Lit char | AnyChar | Group

function parseKey :: "string \<Rightarrow> atom list option" where
  "parseKey [] = Some []"
| "parseKey (c # cs) =
     (if c = CHR ''('' then
        (if take 9 cs = drop 1 captureGroup then map_option (Cons Group) (parseKey (drop 9 cs)) else None)
      else if c = CHR ''.'' then map_option (Cons AnyChar) (parseKey cs)
      else if wordChar c \<or> c = CHR ''-'' \<or> c = CHR ''~'' \<or> c = CHR ''/'' \<or> c = CHR '':''
        then map_option (Cons (Lit c)) (parseKey cs)
      else None)"
  by pat_completeness auto
termination
  by (relation "measure length") auto

definition lineTerminator :: "char \<Rightarrow> bool" where
  "lineTerminator c = (c = CHR 0x0A \<or> c = CHR 0x0D)"

text \<open>\<open>firstSome f n\<close> tries \<open>f n\<close>, \<open>f (n - 1)\<close>, ..., \<open>f 1\<close> in this order.\<close>

fun firstSome :: "(nat \<Rightarrow> 'a option) \<Rightarrow> nat \<Rightarrow> 'a option" where
  "firstSome f 0 = None"
| "firstSome f (Suc n) = (case f (Suc n) of Some x \<Rightarrow> Some x | None \<Rightarrow> firstSome f n)"

text \<open>Matching at the start of the input: the captures of the first successful alternative.\<close>

fun matchAtoms :: "atom list \<Rightarrow> string \<Rightarrow> string list option" where
  "matchAtoms [] s = Some []"
| "matchAtoms (Lit c # atoms) s =
     (case s of [] \<Rightarrow> None | x # xs \<Rightarrow> if x = c then matchAtoms atoms xs else None)"
| "matchAtoms (AnyChar # atoms) s =
     (case s of [] \<Rightarrow> None | x # xs \<Rightarrow> if lineTerminator x then None else matchAtoms atoms xs)"
| "matchAtoms (Group # atoms) s =
     firstSome (\<lambda>n. map_option (Cons (take n s)) (matchAtoms atoms (drop n s)))
       (length (takeWhile segmentChar s))"

fun searchAtoms :: "atom list \<Rightarrow> string \<Rightarrow> string list option" where
  "searchAtoms atoms [] = matchAtoms atoms []"
| "searchAtoms atoms (x # xs) =
     (case matchAtoms atoms (x # xs) of Some groups \<Rightarrow> Some groups | None \<Rightarrow> searchAtoms atoms xs)"

text \<open>The result for a key of this form; \<open>None\<close> for any other key.\<close>

definition namedKeyExec :: "string \<Rightarrow> string \<Rightarrow> regexResult option" where
  "namedKeyExec k uri =
     (case parseKey k of
        None \<Rightarrow> None
      | Some atoms \<Rightarrow>
          Some (case searchAtoms atoms uri of
                  None \<Rightarrow> RegexNull
                | Some groups \<Rightarrow> RegexMatch (map Some groups)))"

text \<open>An engine that agrees with it on these keys.\<close>

definition compilesNamedKeys :: "regExp \<Rightarrow> bool" where
  "compilesNamedKeys rx = (\<forall>k uri res. namedKeyExec k uri = Some res \<longrightarrow> rx k uri = res)"

definition namedKeyRegExp :: regExp where
  "namedKeyRegExp k uri = (case namedKeyExec k uri of Some res \<Rightarrow> res | None \<Rightarrow> RegexSyntaxError)"

subsection \<open>Notions used in the statements\<close>

text \<open>
  \<open>allFalsy chain c\<close> is the context after the handlers of \<open>chain\<close> have run in order from
  \<open>c\<close>, provided each of them returned a falsy value.
\<close>

fun allFalsy :: "'a HandlerFunction list \<Rightarrow> 'a ApplicationContext \<Rightarrow> 'a ApplicationContext option" where
  "allFalsy [] c = Some c"
| "allFalsy (callback # chain) c =
     (case callback c of
        Normal rv c' \<Rightarrow> if rv then None else allFalsy chain c'
      | Abrupt _ _ \<Rightarrow> None)"

text \<open>
  A URL is accepted by an entry: segment by segment for a positional entry, by the
  regular expression for the others.
\<close>

definition positionalMatch :: "string list \<Rightarrow> string list \<Rightarrow> bool" where
  "positionalMatch names keyNames = list_all2 (\<lambda>n k. startsWithColon k \<or> n = k) names keyNames"


text \<open>
  The representation invariant of the tables: keys are pairwise distinct, no bucket is
  empty, and an entry of bucket \<open>b\<close> has \<open>b\<close> path segments.
\<close>

definition goodBuckets :: "(nat \<times> ('h, 'b) NamedRouteCallback_scheme list) list \<Rightarrow> bool" where
  "goodBuckets pm =
     (distinct (map fst pm) \<and>
      (\<forall>(b, es) \<in> set pm. es \<noteq> [] \<and> (\<forall>e \<in> set es. length (pathNames e) = b)))"

definition wellFormedMap :: "'h RouteMap \<Rightarrow> bool" where
  "wellFormedMap routeMap =
     (distinct (map fst (staticRouteMap routeMap)) \<and> goodBuckets (namedRoutePartitionMap routeMap))"

definition wellFormed :: "'h RouteMap list \<Rightarrow> bool" where
  "wellFormed httpMethodMap = (\<forall>routeMap \<in> set httpMethodMap. wellFormedMap routeMap)"

text \<open>The effect of the two matching loops on a parameter bag, and the result of the first.\<close>

fun positionalOk :: "string list \<Rightarrow> string list \<Rightarrow> nat \<Rightarrow> bool" where
  "positionalOk names keyNames 0 = True"
| "positionalOk names keyNames (Suc i) =
     (if names ! i \<noteq> keyNames ! i \<and> \<not> startsWithColon (keyNames ! i) then False
      else positionalOk names keyNames i)"

fun positionalBag :: "string list \<Rightarrow> string list \<Rightarrow> nat \<Rightarrow> bag \<Rightarrow> bag" where
  "positionalBag names keyNames 0 b = b"
| "positionalBag names keyNames (Suc i) b =
     (if names ! i \<noteq> keyNames ! i \<and> \<not> startsWithColon (keyNames ! i) then b
      else if startsWithColon (keyNames ! i)
        then positionalBag names keyNames i (assignParam (drop 1 (keyNames ! i)) (Some (names ! i)) b)
      else positionalBag names keyNames i b)"

fun regexBag :: "string list \<Rightarrow> nat \<Rightarrow> string option list \<Rightarrow> bag \<Rightarrow> bag" where
  "regexBag [] i groups b = b"
| "regexBag (segment # segments) i groups b =
     regexBag segments (Suc i) groups (assignParam segment (if i < length groups then groups ! i else None) b)"

text \<open>The context with one more captured parameter.\<close>

definition withParam :: "string \<Rightarrow> string \<Rightarrow> 'a ApplicationContext \<Rightarrow> 'a ApplicationContext" where
  "withParam name v c =
     (case request_params (request c) of
        None \<Rightarrow> c
      | Some b \<Rightarrow> c\<lparr>request := (request c)\<lparr>request_params := Some (assignParam name (Some v) b)\<rparr>\<rparr>)"



text \<open>
  For the comparison of the two matching strategies: the atoms and the text of the key
  compiled from the segments of a pattern, the text of a URL with given segments, the
  parameters that a URL binds under a pattern (name and value, from left to right), the
  characters of a named pattern other than the slash, and one write to a bag.
\<close>

definition atomOf :: "char \<Rightarrow> atom" where
  "atomOf c = (if c = CHR ''.'' then AnyChar else Lit c)"

definition segmentAtoms :: "string \<Rightarrow> atom list" where
  "segmentAtoms t = (if startsWithColon t then [Group] else map atomOf t)"

definition keyAtoms :: "string list \<Rightarrow> atom list" where
  "keyAtoms segs = concat (map (\<lambda>t. Lit (CHR ''/'') # segmentAtoms t) segs)"

definition keyText :: "string list \<Rightarrow> string" where
  "keyText segs = concat (map (\<lambda>t. CHR ''/'' # (if startsWithColon t then captureGroup else t)) segs)"

definition capturePairs :: "string list \<Rightarrow> string list \<Rightarrow> (string \<times> string) list" where
  "capturePairs names segs =
     map (\<lambda>(n, k). (drop 1 k, n)) (filter (\<lambda>(n, k). startsWithColon k) (zip names segs))"

definition writeParam :: "bag \<Rightarrow> string \<times> string \<Rightarrow> bag" where
  "writeParam b pv = assignParam (fst pv) (Some (snd pv)) b"

definition namedChar :: "char \<Rightarrow> bool" where
  "namedChar c = (segmentChar c \<or> c = CHR '':'')"

definition urlText :: "string list \<Rightarrow> string" where
  "urlText names = concat (map (\<lambda>s. CHR ''/'' # s) names)"

text \<open>
  \<open>rejectAll rx URL names es r\<close> is the request left when the entries \<open>es\<close> have been
  tested in order from \<open>r\<close> and each test returned false.
\<close>

fun rejectAll ::
  "regExp \<Rightarrow> string \<Rightarrow> string list \<Rightarrow> ('h, 'b) NamedRouteCallback_scheme list \<Rightarrow> HttpRequest \<Rightarrow> HttpRequest option" where
  "rejectAll rx URL names [] r = Some r"
| "rejectAll rx URL names (e # es) r =
     (case matchEntry rx URL names e r of
        Normal False r' \<Rightarrow> rejectAll rx URL names es r'
      | Normal True _ \<Rightarrow> None
      | Abrupt _ _ \<Rightarrow> None)"


text \<open>The two calls that write the not-found response.\<close>

definition notFoundCalls :: "string \<Rightarrow> responseCall list" where
  "notFoundCalls apiVersion =
     [WriteHead 404 None [(''Content-Type'', ''text/plain''), (''User-Agent'', apiVersion)],
      End (Some ''Route not found'')]"

subsection \<open>Example data\<close>

text \<open>
  A numbering of the indices with six route maps, a request, a context whose \<open>app\<close> part
  is the list of the handlers that have run, and three kinds of handlers: one that
  records its number and returns a falsy value, one that records its number and returns
  a truthy value, one that throws.
\<close>

definition exampleIndex :: HttpMapIndex where
  "exampleIndex = \<lparr>MIDDLEWARE = 0, GET = 1, POST = 2, PUT = 3, PATCH = 4, DELETE = 5\<rparr>"

definition exampleRequest :: "string \<Rightarrow> HttpRequest" where
  "exampleRequest u =
     \<lparr>request_method = ''GET'', request_url = u, request_params = None, request_query = None\<rparr>"

definition exampleContext :: "string \<Rightarrow> nat list ApplicationContext" where
  "exampleContext u = \<lparr>request = exampleRequest u, response = [], app = []\<rparr>"

definition passOn :: "nat \<Rightarrow> nat list HandlerFunction" where
  "passOn n = (\<lambda>c. Normal False (c\<lparr>app := app c @ [n]\<rparr>))"

definition answer :: "nat \<Rightarrow> nat list HandlerFunction" where
  "answer n = (\<lambda>c. Normal True (c\<lparr>app := app c @ [n]\<rparr>))"

definition failing :: "nat list HandlerFunction" where
  "failing = (\<lambda>c. Abrupt (Error ''failed'') c)"

text \<open>
  A router with three routes registered under GET, in this order: \<^verbatim>\<open>/a/:x\<close>, \<^verbatim>\<open>/a/b\<close>
  and \<^verbatim>\<open>/boom\<close>, whose second handler throws. A router with three routes of two
  segments: \<^verbatim>\<open>/a/:x\<close>, then \<^verbatim>\<open>/d/:id\<close>, whose second handler throws, then \<^verbatim>\<open>/x/(\<close>,
  which is not a regular expression. A router whose top-level middleware throws, with
  the routes \<^verbatim>\<open>/a/b\<close> and \<^verbatim>\<open>/a/:x\<close>. A router with three overlapping patterns:
  \<^verbatim>\<open>/a/:x\<close>, \<^verbatim>\<open>/:y/b\<close> and \<^verbatim>\<open>/:z/:w\<close>.
\<close>

definition exampleRouter :: "nat list HandlerFunction RouteMap list" where
  "exampleRouter =
     stateOf (get exampleIndex ''/boom'' [passOn 3, failing, answer 4]
       (stateOf (get exampleIndex ''/a/b'' [answer 2]
         (stateOf (get exampleIndex ''/a/:x'' [answer 1] (newRouter 6))))))"



definition overlapRouter :: "nat list HandlerFunction RouteMap list" where
  "overlapRouter =
     stateOf (get exampleIndex ''/:z/:w'' [answer 3]
       (stateOf (get exampleIndex ''/:y/b'' [answer 2]
         (stateOf (get exampleIndex ''/a/:x'' [answer 1] (newRouter 6))))))"

text \<open>The bucket entries that these registrations, and that of \<^verbatim>\<open>/b/:y\<close>, create.\<close>

definition entryAX :: "nat list HandlerFunction NamedRouteCallback" where
  "entryAX = \<lparr>key = ''/a/'' @ captureGroup, params = [''x''], callbacks = [answer 1],
               pathNames = [''a'', '':x''], useRegex = False\<rparr>"

definition entryBY :: "nat list HandlerFunction NamedRouteCallback" where
  "entryBY = \<lparr>key = ''/b/'' @ captureGroup, params = [''y''], callbacks = [answer 2],
               pathNames = [''b'', '':y''], useRegex = False\<rparr>"



definition entryYB :: "nat list HandlerFunction NamedRouteCallback" where
  "entryYB = \<lparr>key = ''/'' @ captureGroup @ ''/b'', params = [''y''], callbacks = [answer 2],
               pathNames = ['':y'', ''b''], useRegex = False\<rparr>"

definition entryZW :: "nat list HandlerFunction NamedRouteCallback" where
  "entryZW = \<lparr>key = ''/'' @ captureGroup @ ''/'' @ captureGroup, params = [''z'', ''w''],
               callbacks = [answer 3], pathNames = ['':z'', '':w''], useRegex = False\<rparr>"

text \<open>
  Two routers to mount one into the other; handlers are numbers. The source has global
  middleware, a static key that the target has too, a bucket that the target has too and
  one that the target lacks. A second source has a static key that the target lacks. A
  third has such a key, then a key that the target has too, and a bucket that the target
  has too.
\<close>

definition mountTarget :: "nat RouteMap list" where
  "mountTarget =
     [emptyRouteMap,
      \<lparr>namedRoutePartitionMap =
         [(1, [\<lparr>key = ''/'' @ captureGroup, params = [''x''], callbacks = [1],
                 pathNames = ['':x''], useRegex = False\<rparr>])],
       staticRouteMap = [(''/a'', [1])]\<rparr>]"


definition mountSourceOnly :: "nat RouteMap list" where
  "mountSourceOnly =
     [emptyRouteMap,
      \<lparr>namedRoutePartitionMap = [], staticRouteMap = [(''/b'', [2]), (''/a'', [3])]\<rparr>]"


text \<open>
  The entry that \<^verbatim>\<open>buildRequestMap\<close> builds for a pattern, with the regular-expression
  strategy forced, and a request whose parameter bag is empty.
\<close>

definition regexEntry :: "string \<Rightarrow> unit NamedRouteCallback" where
  "regexEntry uri =
     \<lparr>key = snd (createNamedRouteSearchKey (split (CHR ''/'') uri)),
      params = fst (createNamedRouteSearchKey (split (CHR ''/'') uri)),
      callbacks = [()],
      pathNames = drop 1 (split (CHR ''/'') uri),
      useRegex = True\<rparr>"

definition emptyBagRequest :: "string \<Rightarrow> HttpRequest" where
  "emptyBagRequest u = (exampleRequest u)\<lparr>request_params := Some (\<lambda>_. None)\<rparr>"

section \<open>Properties\<close>

subsection \<open>Reading a property\<close>

lemma getProperty_own [simp]:
  "map_of obj k = Some v \<Longrightarrow> getProperty obj k = OwnProperty v"
  by (simp add: getProperty_def)

lemma getProperty_path [simp]:
  "getProperty obj (CHR ''/'' # k) =
     (case map_of obj (CHR ''/'' # k) of Some v \<Rightarrow> OwnProperty v | None \<Rightarrow> NoProperty)"
  by (simp add: getProperty_def objectPrototypeNames_def split: option.splits)

lemma getProperty_OwnProperty_iff:
  "getProperty obj k = OwnProperty v \<longleftrightarrow> map_of obj k = Some v"
  by (simp add: getProperty_def split: option.splits)

lemma getProperty_NoProperty:
  "getProperty obj k = NoProperty \<Longrightarrow> map_of obj k = None"
  by (simp add: getProperty_def split: option.splits)

subsection \<open>Execution of a handler chain\<close>

lemma runChain_falsy_prefix:
  "allFalsy before c = Some c1 \<Longrightarrow> runChain (before @ rest) c = runChain rest c1"
  by (induction before arbitrary: c) (auto split: completion.splits if_splits)


text \<open>
  Claim C7. When the handlers before \<open>callback\<close> in a chain all return a falsy value, the
  chain goes on with the rest in registration order; when \<open>callback\<close> then returns a
  truthy value, the chain stops there, whatever handlers come later, and \<^verbatim>\<open>response.end()\<close>
  is called. This holds for the chain of a static route and for the chain of a matched
  bucket entry in \<^verbatim>\<open>processHTTPMethod\<close>.
\<close>

theorem chain_stops_at_first_truthy:
  assumes falsy: "allFalsy before c = Some c1"
      and truthy: "callback c1 = Normal True c2"
  shows "runChain (before @ rest) c = runChain rest c1 \<and>
         runChain (before @ callback # later) c = Normal () (endResponse c2) \<and>
         (mapIndex < length httpMethodMap \<and>
          map_of (staticRouteMap (httpMethodMap ! mapIndex)) URL = Some (before @ callback # later) \<and>
          callTopLevelMiddlewares ix httpMethodMap c0 = Normal () c
          \<longrightarrow> tryBlock rx apiVersion ix httpMethodMap mapIndex URL throwOnNotFound c0 = Return (endResponse c2)) \<and>
         (matchEntry rx URL names e (request c0) = Normal True r \<and>
          callTopLevelMiddlewares ix httpMethodMap (c0\<lparr>request := r\<rparr>) = Normal () c \<and>
          callbacks e = before @ callback # later
          \<longrightarrow> scanBucket rx ix httpMethodMap URL names (e # es) c0 = Return (endResponse c2))"
proof -
  have cont: "runChain (before @ rest) c = runChain rest c1" for rest
    using falsy by (rule runChain_falsy_prefix)
  have stop: "runChain (before @ callback # later) c = Normal () (endResponse c2)"
    using cont [of "callback # later"] truthy by simp
  show ?thesis
    using cont stop by (simp add: tryBlock_def)
qed

theorem chain_stops_at_first_truthy_witness:
  "allFalsy [passOn 1] (exampleContext ''/a'') = Some ((exampleContext ''/a'')\<lparr>app := [1]\<rparr>) \<and>
   answer 2 ((exampleContext ''/a'')\<lparr>app := [1]\<rparr>) = Normal True ((exampleContext ''/a'')\<lparr>app := [1, 2]\<rparr>) \<and>
   runChain ([passOn 1] @ answer 2 # [answer 3]) (exampleContext ''/a'')
     = Normal () ((exampleContext ''/a'')\<lparr>app := [1, 2], response := [End None]\<rparr>) \<and>
   tryBlock (\<lambda>k u. RegexNull) ''v'' exampleIndex
       [emptyRouteMap, \<lparr>namedRoutePartitionMap = [], staticRouteMap = [(''/a'', [passOn 1, answer 2, answer 3])]\<rparr>]
       1 ''/a'' True (exampleContext ''/a'')
     = Return ((exampleContext ''/a'')\<lparr>app := [1, 2], response := [End None]\<rparr>) \<and>
   scanBucket (\<lambda>k u. RegexNull) exampleIndex
       [emptyRouteMap, \<lparr>namedRoutePartitionMap = [], staticRouteMap = [(''/a'', [passOn 1, answer 2, answer 3])]\<rparr>]
       ''/a'' [''a'']
       [\<lparr>key = ''/a'', params = [], callbacks = [passOn 1, answer 2, answer 3], pathNames = [''a''], useRegex = False\<rparr>]
       (exampleContext ''/a'')
     = Return ((exampleContext ''/a'')\<lparr>app := [1, 2], response := [End None]\<rparr>)"
proof -
  let ?c = "exampleContext ''/a''"
  let ?e = "\<lparr>key = ''/a'', params = [], callbacks = [passOn 1, answer 2, answer 3], pathNames = [''a''], useRegex = False\<rparr>"
  let ?hm = "[emptyRouteMap, \<lparr>namedRoutePartitionMap = [], staticRouteMap = [(''/a'', [passOn 1, answer 2, answer 3])]\<rparr>]"
  have falsy: "allFalsy [passOn 1] ?c = Some (?c\<lparr>app := [1]\<rparr>)"
    by (simp add: passOn_def exampleContext_def)
  have truthy: "answer 2 (?c\<lparr>app := [1]\<rparr>) = Normal True (?c\<lparr>app := [1, 2]\<rparr>)"
    by (simp add: answer_def exampleContext_def)
  have mw: "callTopLevelMiddlewares exampleIndex hm ?c = Normal () ?c"
    if "hm = ?hm" for hm :: "nat list HandlerFunction RouteMap list"
    using that by (simp add: callTopLevelMiddlewares_def exampleIndex_def emptyRouteMap_def)
  have m: "matchEntry (\<lambda>k u. RegexNull) ''/a'' [''a''] ?e (request ?c) = Normal True (request ?c)"
    by (simp add: matchEntry_def fastPathMatch_def startsWithColon_def)
  have e: "endResponse (?c\<lparr>app := [1, 2]\<rparr>) = ?c\<lparr>app := [1, 2], response := [End None]\<rparr>"
    by (simp add: endResponse_def exampleContext_def)
  from chain_stops_at_first_truthy [where before = "[passOn 1]" and c = ?c and ?c1.0 = "?c\<lparr>app := [1]\<rparr>"
      and callback = "answer 2" and ?c2.0 = "?c\<lparr>app := [1, 2]\<rparr>" and rest = "[answer 3]" and later = "[answer 3]"
      and mapIndex = 1 and httpMethodMap = ?hm and URL = "''/a''" and ix = exampleIndex and ?c0.0 = ?c
      and rx = "\<lambda>k u. RegexNull" and apiVersion = "''v''" and throwOnNotFound = True and names = "[''a'']"
      and e = ?e and r = "request ?c" and es = "[]", OF falsy truthy]
  show ?thesis
    using falsy truthy mw m e by simp
qed


subsection \<open>Static routes\<close>

lemma callTopLevelMiddlewares_partition_update:
  "callTopLevelMiddlewares ix (httpMethodMap[i := (httpMethodMap ! i)\<lparr>namedRoutePartitionMap := pm\<rparr>]) c
     = callTopLevelMiddlewares ix httpMethodMap c"
  by (cases "MIDDLEWARE ix = i") (simp_all add: callTopLevelMiddlewares_def)

text \<open>
  Claim C1. When the normalised path of the request is a key of the static map of the
  selected method, \<^verbatim>\<open>processHTTPMethod\<close> runs the top-level middlewares and then the
  chain stored under that key, and nothing else: the outcome is the same for every
  partition map and every regular-expression engine, so no bucket entry is tested.
\<close>

theorem static_route_wins:
  assumes index: "mapIndex < length httpMethodMap"
      and hit: "map_of (staticRouteMap (httpMethodMap ! mapIndex)) (requestPath c) = Some chain"
  shows "processHTTPMethod rx apiVersion ix httpMethodMap mapIndex throwOnNotFound c =
           (case callTopLevelMiddlewares ix httpMethodMap (attachQuery c) of
              Abrupt _ c' \<Rightarrow> routeNotFound apiVersion c'
            | Normal _ c' \<Rightarrow>
                (case runChain chain c' of
                   Abrupt _ c'' \<Rightarrow> routeNotFound apiVersion c''
                 | Normal _ c'' \<Rightarrow> c'')) \<and>
         processHTTPMethod rx' apiVersion ix
             (httpMethodMap[mapIndex := (httpMethodMap ! mapIndex)\<lparr>namedRoutePartitionMap := pm\<rparr>])
             mapIndex throwOnNotFound c
           = processHTTPMethod rx apiVersion ix httpMethodMap mapIndex throwOnNotFound c"
proof -
  have direct: "tryBlock e apiVersion ix
                  (httpMethodMap[mapIndex := (httpMethodMap ! mapIndex)\<lparr>namedRoutePartitionMap := p\<rparr>])
                  mapIndex (requestPath c) throwOnNotFound (attachQuery c) =
           (case callTopLevelMiddlewares ix httpMethodMap (attachQuery c) of
              Abrupt _ c' \<Rightarrow> Raise c'
            | Normal _ c' \<Rightarrow>
                (case runChain chain c' of
                   Abrupt _ c'' \<Rightarrow> Raise c''
                 | Normal _ c'' \<Rightarrow> Return c''))" for e p
    using index hit
    by (simp add: tryBlock_def callTopLevelMiddlewares_partition_update)
  have same: "httpMethodMap[mapIndex := (httpMethodMap ! mapIndex)
                \<lparr>namedRoutePartitionMap := namedRoutePartitionMap (httpMethodMap ! mapIndex)\<rparr>] = httpMethodMap"
    by simp
  have here: "tryBlock rx apiVersion ix httpMethodMap mapIndex (requestPath c) throwOnNotFound (attachQuery c) =
           (case callTopLevelMiddlewares ix httpMethodMap (attachQuery c) of
              Abrupt _ c' \<Rightarrow> Raise c'
            | Normal _ c' \<Rightarrow>
                (case runChain chain c' of
                   Abrupt _ c'' \<Rightarrow> Raise c''
                 | Normal _ c'' \<Rightarrow> Return c''))"
    using direct [of rx "namedRoutePartitionMap (httpMethodMap ! mapIndex)"] by (simp only: same)
  show ?thesis
    unfolding processHTTPMethod_def direct here
    by (simp split: completion.splits)
qed

theorem static_route_wins_witness:
  "(1::nat) < length [emptyRouteMap,
       \<lparr>namedRoutePartitionMap = [], staticRouteMap = [(''/a/b'', [answer 2])]\<rparr>] \<and>
   map_of (staticRouteMap ([emptyRouteMap,
       \<lparr>namedRoutePartitionMap = [], staticRouteMap = [(''/a/b'', [answer 2])]\<rparr>] ! 1))
     (requestPath (exampleContext ''/a/b/?q=1'')) = Some [answer 2] \<and>
   processHTTPMethod namedKeyRegExp ''v'' exampleIndex
     [emptyRouteMap,
      \<lparr>namedRoutePartitionMap =
         [(2, [\<lparr>key = ''/a/'' @ captureGroup, params = [''x''], callbacks = [answer 1], pathNames = [''a'', '':x''], useRegex = False\<rparr>])],
       staticRouteMap = [(''/a/b'', [answer 2])]\<rparr>]
     1 True (exampleContext ''/a/b/?q=1'')
   = \<lparr>request = (exampleRequest ''/a/b/?q=1'')\<lparr>request_query := Some ''q=1''\<rparr>, response = [End None], app = [2]\<rparr>"
proof -
  let ?hm = "[emptyRouteMap, \<lparr>namedRoutePartitionMap = [], staticRouteMap = [(''/a/b'', [answer 2])]\<rparr>]"
  let ?c = "exampleContext ''/a/b/?q=1''"
  have index: "(1::nat) < length ?hm" by simp
  have path: "requestPath ?c = ''/a/b''"
    by (simp add: requestPath_def exampleContext_def exampleRequest_def normalizeURL_def)
  have hit: "map_of (staticRouteMap (?hm ! 1)) (requestPath ?c) = Some [answer 2]"
    by (simp add: path)
  have query: "attachQuery ?c = ?c\<lparr>request := (exampleRequest ''/a/b/?q=1'')\<lparr>request_query := Some ''q=1''\<rparr>\<rparr>"
    by (simp add: attachQuery_def exampleContext_def exampleRequest_def)
  have mw: "callTopLevelMiddlewares exampleIndex ?hm c = Normal () c" for c
    by (simp add: callTopLevelMiddlewares_def exampleIndex_def emptyRouteMap_def)
  note inst = static_route_wins [OF index hit, where rx = namedKeyRegExp and rx' = namedKeyRegExp and apiVersion = "''v''"
      and ix = exampleIndex and throwOnNotFound = True
      and pm = "[(2, [\<lparr>key = ''/a/'' @ captureGroup, params = [''x''], callbacks = [answer 1], pathNames = [''a'', '':x''], useRegex = False\<rparr>])]"]
  have run: "runChain [answer 2] (attachQuery ?c) =
      Normal () \<lparr>request = (exampleRequest ''/a/b/?q=1'')\<lparr>request_query := Some ''q=1''\<rparr>, response = [End None], app = [2]\<rparr>"
    unfolding query by (simp add: answer_def endResponse_def exampleContext_def)
  have plain: "processHTTPMethod namedKeyRegExp ''v'' exampleIndex ?hm 1 True ?c
      = \<lparr>request = (exampleRequest ''/a/b/?q=1'')\<lparr>request_query := Some ''q=1''\<rparr>, response = [End None], app = [2]\<rparr>"
    using inst [THEN conjunct1] by (simp only: mw run completion.case)
  have upd: "?hm[1 := (?hm ! 1)\<lparr>namedRoutePartitionMap :=
        [(2, [\<lparr>key = ''/a/'' @ captureGroup, params = [''x''], callbacks = [answer 1], pathNames = [''a'', '':x''], useRegex = False\<rparr>])]\<rparr>]
      = [emptyRouteMap,
      \<lparr>namedRoutePartitionMap =
         [(2, [\<lparr>key = ''/a/'' @ captureGroup, params = [''x''], callbacks = [answer 1], pathNames = [''a'', '':x''], useRegex = False\<rparr>])],
       staticRouteMap = [(''/a/b'', [answer 2])]\<rparr>]"
    by simp
  from inst have "processHTTPMethod namedKeyRegExp ''v'' exampleIndex
      (?hm[1 := (?hm ! 1)\<lparr>namedRoutePartitionMap :=
        [(2, [\<lparr>key = ''/a/'' @ captureGroup, params = [''x''], callbacks = [answer 1], pathNames = [''a'', '':x''], useRegex = False\<rparr>])]\<rparr>])
      1 True ?c = processHTTPMethod namedKeyRegExp ''v'' exampleIndex ?hm 1 True ?c"
    by (rule conjunct2)
  then show ?thesis
    using index hit by (simp only: upd plain simp_thms)
qed


subsection \<open>The matching loops as functions of the parameter bag\<close>

lemma fastPathLoop_eq:
  "request_params r = Some b \<Longrightarrow>
   fastPathLoop names keyNames n r =
     Normal (positionalOk names keyNames n) (r\<lparr>request_params := Some (positionalBag names keyNames n b)\<rparr>)"
  by (induction n arbitrary: r b) (auto simp add: setParam_def)

lemma attachLoop_eq:
  "request_params r = Some b \<Longrightarrow>
   attachLoop ps i groups r = Normal () (r\<lparr>request_params := Some (regexBag ps i groups b)\<rparr>)"
  by (induction ps arbitrary: i r b) (auto simp add: setParam_def)

lemma positionalOk_iff:
  "positionalOk names keyNames n \<longleftrightarrow> (\<forall>i<n. startsWithColon (keyNames ! i) \<or> names ! i = keyNames ! i)"
  by (induction n) (auto simp add: less_Suc_eq)

lemma positionalMatch_iff:
  "positionalMatch names keyNames \<longleftrightarrow>
     length keyNames = length names \<and> positionalOk names keyNames (length names)"
  by (auto simp add: positionalMatch_def positionalOk_iff list_all2_conv_all_nth)

lemma fastPathMatch_eq:
  "request_params r = Some b \<Longrightarrow>
   fastPathMatch names keyNames r =
     Normal (positionalMatch names keyNames)
       (r\<lparr>request_params := Some (if length keyNames = length names
                                   then positionalBag names keyNames (length names) b else b)\<rparr>)"
  by (simp add: fastPathMatch_def fastPathLoop_eq positionalMatch_iff)



text \<open>Entries that reject the URL are passed over, and the request they leave is kept.\<close>

lemma scanBucket_rejected:
  "rejectAll rx URL names pre (request c) = Some r1 \<Longrightarrow>
   scanBucket rx ix hm URL names (pre @ rest) c = scanBucket rx ix hm URL names rest (c\<lparr>request := r1\<rparr>)"
proof (induction pre arbitrary: c)
  case Nil
  then have "r1 = request c" by simp
  then show ?case by simp
next
  case (Cons e pre)
  from Cons.prems obtain r' where m: "matchEntry rx URL names e (request c) = Normal False r'"
    and rest: "rejectAll rx URL names pre r' = Some r1"
    by (auto split: completion.splits bool.splits)
  from rest have "rejectAll rx URL names pre (request (c\<lparr>request := r'\<rparr>)) = Some r1" by simp
  from Cons.IH [OF this] m show ?case by simp
qed

subsection \<open>The representation invariant is kept by every operation\<close>

lemma in_set_update:
  "(a, b) \<in> set (AList.update k v al) \<Longrightarrow> (a, b) = (k, v) \<or> (a, b) \<in> set al"
  by (induction al) (auto split: if_splits)

lemma set_bucketEntries [simp]: "set (bucketEntries m) = set m"
  by (simp add: bucketEntries_def)

lemma set_objectEntries [simp]: "set (objectEntries m) = set m"
  by (auto simp add: objectEntries_def)

lemma distinct_objectAssign:
  "distinct (map fst target) \<Longrightarrow> distinct (map fst (objectAssign target entries))"
  unfolding objectAssign_def
  by (induction entries arbitrary: target) (simp_all add: distinct_update)

lemma goodBuckets_update:
  assumes "goodBuckets pm" and "es \<noteq> []" and "\<forall>e \<in> set es. length (pathNames e) = b"
  shows "goodBuckets (AList.update b es pm)"
  using assms unfolding goodBuckets_def
  by (auto simp add: distinct_update dest!: in_set_update)

lemma goodBuckets_lookup:
  "goodBuckets pm \<Longrightarrow> map_of pm b = Some es \<Longrightarrow> es \<noteq> [] \<and> (\<forall>e \<in> set es. length (pathNames e) = b)"
  unfolding goodBuckets_def by (auto dest!: map_of_SomeD)

lemma goodBuckets_objectAssign:
  assumes "goodBuckets target"
      and "\<forall>(b, es) \<in> set entries. es \<noteq> [] \<and> (\<forall>e \<in> set es. length (pathNames e) = b)"
  shows "goodBuckets (objectAssign target entries)"
  using assms unfolding objectAssign_def
proof (induction entries arbitrary: target)
  case Nil
  then show ?case by simp
next
  case (Cons kv entries)
  from Cons.prems have "goodBuckets (AList.update (fst kv) (snd kv) target)"
    by (intro goodBuckets_update) (auto simp add: case_prod_beta)
  with Cons show ?case by simp
qed

lemma goodBuckets_mergeNamedLoop:
  assumes "goodBuckets target"
      and "\<forall>(b, es) \<in> set entries. \<forall>e \<in> set es. length (pathNames e) = b"
  shows "goodBuckets (mergeNamedLoop entries target)"
  using assms
proof (induction entries target rule: mergeNamedLoop.induct)
  case (1 target)
  then show ?case by simp
next
  case (2 k v entries target)
  show ?case
  proof (cases "map_of target k")
    case None
    with 2 show ?thesis by simp
  next
    case (Some es)
    from goodBuckets_lookup [OF "2.prems"(1) Some] "2.prems"(2)
    have "goodBuckets (AList.update k (es @ v) target)"
      by (intro goodBuckets_update [OF "2.prems"(1)]) auto
    with 2 Some show ?thesis by simp
  qed
qed

lemma goodBuckets_mergeNamed:
  assumes "goodBuckets target" and "goodBuckets source"
  shows "goodBuckets (mergeNamed target source)"
proof -
  from assms(2) have src: "\<forall>(b, es) \<in> set (bucketEntries source). es \<noteq> [] \<and> (\<forall>e \<in> set es. length (pathNames e) = b)"
    by (simp add: goodBuckets_def)
  then have src': "\<forall>(b, es) \<in> set (bucketEntries source). \<forall>e \<in> set es. length (pathNames e) = b"
    by fastforce
  show ?thesis
    unfolding mergeNamed_def
    using goodBuckets_objectAssign [OF assms(1) src] goodBuckets_mergeNamedLoop [OF assms(1) src']
    by auto
qed

lemma distinct_mergeStaticLoop:
  "distinct (map fst target) \<Longrightarrow> distinct (map fst (stateOf (mergeStaticLoop entries target)))"
  by (induction entries target rule: mergeStaticLoop.induct) (auto simp add: distinct_update split: option.splits)

lemma wellFormedMap_mergeRouteMap:
  assumes "wellFormedMap t" and "wellFormedMap s"
  shows "wellFormedMap (stateOf (mergeRouteMap t s))"
proof -
  from assms have d: "distinct (map fst (staticRouteMap t))" and g: "goodBuckets (namedRoutePartitionMap t)"
    and gs: "goodBuckets (namedRoutePartitionMap s)"
    by (simp_all add: wellFormedMap_def)
  show ?thesis
  proof (cases "length (staticRouteMap t) = 0")
    case True
    then show ?thesis
      using distinct_objectAssign [OF d] goodBuckets_mergeNamed [OF g gs]
      by (simp add: mergeRouteMap_def wellFormedMap_def)
  next
    case False
    then show ?thesis
      using distinct_mergeStaticLoop [OF d, of "objectEntries (staticRouteMap s)"] goodBuckets_mergeNamed [OF g gs] g
      by (cases "mergeStaticLoop (objectEntries (staticRouteMap s)) (staticRouteMap t)")
         (simp_all add: mergeRouteMap_def wellFormedMap_def)
  qed
qed

lemma wellFormed_mergeRouterMaps:
  "wellFormed target \<Longrightarrow> wellFormed source \<Longrightarrow> wellFormed (stateOf (mergeRouterMaps target source))"
proof (induction target source rule: mergeRouterMaps.induct)
  case (1 target)
  then show ?case by simp
next
  case (2 s source)
  then show ?case by simp
next
  case (3 t target s source)
  from "3.prems" have t: "wellFormedMap t" and s: "wellFormedMap s"
    and tt: "wellFormed target" and ss: "wellFormed source"
    by (simp_all add: wellFormed_def)
  from wellFormedMap_mergeRouteMap [OF t s] tt "3.IH" ss
  show ?case
    by (auto simp add: wellFormed_def split: completion.splits)
qed


lemma wellFormed_list_update:
  "wellFormed hm \<Longrightarrow> wellFormedMap x \<Longrightarrow> wellFormed (hm[i := x])"
  unfolding wellFormed_def by (auto dest!: set_update_subset_insert [THEN subsetD])

lemma wellFormed_nth: "wellFormed hm \<Longrightarrow> i < length hm \<Longrightarrow> wellFormedMap (hm ! i)"
  unfolding wellFormed_def by simp

lemma wellFormed_buildRequestMap:
  assumes "wellFormed hm"
  shows "wellFormed (stateOf (buildRequestMap mapIndex uri cbs hm))"
proof (cases "mapIndex < length hm")
  case False
  with assms show ?thesis by (simp add: buildRequestMap_def)
next
  case True
  let ?rm = "hm ! mapIndex"
  let ?tokens = "split (CHR ''/'') uri"
  from wellFormed_nth [OF assms True]
  have d: "distinct (map fst (staticRouteMap ?rm))" and g: "goodBuckets (namedRoutePartitionMap ?rm)"
    by (simp_all add: wellFormedMap_def)
  have static: "wellFormedMap (?rm\<lparr>staticRouteMap := AList.update uri v (staticRouteMap ?rm)\<rparr>)" for v
    using d g by (simp add: wellFormedMap_def distinct_update)
  have named: "wellFormedMap (?rm\<lparr>namedRoutePartitionMap := AList.update (length ?tokens - 1) es (namedRoutePartitionMap ?rm)\<rparr>)"
    if "es \<noteq> []" and "\<forall>e \<in> set es. length (pathNames e) = length ?tokens - 1" for es
    using d goodBuckets_update [OF g that] by (simp add: wellFormedMap_def)
  show ?thesis
  proof (cases "regexCheckStaticURL uri")
    case True
    with \<open>mapIndex < length hm\<close> show ?thesis
      using wellFormed_list_update [OF assms static] assms
      by (simp add: buildRequestMap_def Let_def split: property.splits)
  next
    case False
    show ?thesis
    proof (cases "map_of (namedRoutePartitionMap ?rm) (length ?tokens - 1)")
      case None
      with False \<open>mapIndex < length hm\<close> show ?thesis
        using wellFormed_list_update [OF assms named]
        by (simp add: buildRequestMap_def Let_def)
    next
      case (Some es)
      from goodBuckets_lookup [OF g Some]
      have "wellFormedMap (?rm\<lparr>namedRoutePartitionMap := AList.update (length ?tokens - 1)
              (es @ [\<lparr>key = snd (createNamedRouteSearchKey ?tokens),
                         params = fst (createNamedRouteSearchKey ?tokens),
                         callbacks = cbs,
                         pathNames = drop 1 ?tokens,
                         useRegex = (\<not> regexCheckNamedPath uri)\<rparr>]) (namedRoutePartitionMap ?rm)\<rparr>)"
        by (intro named) auto
      with False Some \<open>mapIndex < length hm\<close> show ?thesis
        using wellFormed_list_update [OF assms]
        by (simp add: buildRequestMap_def Let_def)
    qed
  qed
qed

lemma wellFormed_andThen:
  assumes "wellFormed (stateOf m)" and "\<And>s. wellFormed s \<Longrightarrow> wellFormed (stateOf (f s))"
  shows "wellFormed (stateOf (andThen m f))"
  using assms by (cases m) simp_all

lemma wellFormed_registerMethod:
  "wellFormed hm \<Longrightarrow> wellFormed (stateOf (registerMethod mapIndex uri fn hm))"
  by (simp add: registerMethod_def wellFormed_buildRequestMap)

lemma wellFormed_all:
  "wellFormed hm \<Longrightarrow> wellFormed (stateOf (all ix uri fn hm))"
  by (simp add: all_def get_def post_def put_def patch_def delete_def
      wellFormed_andThen wellFormed_registerMethod)


lemma wellFormed_mountStatic:
  assumes "wellFormed hm"
  shows "wellFormed (stateOf (mountStatic pathJoin uri mapIndex source hm))"
proof (cases "staticRouteMap source \<noteq> [] \<and> mapIndex < length hm")
  case False
  with assms show ?thesis by (auto simp add: mountStatic_def Let_def)
next
  case True
  from wellFormed_nth [OF assms] True
  have "wellFormedMap (hm ! mapIndex)" by simp
  then have "wellFormedMap ((hm ! mapIndex)\<lparr>staticRouteMap := objectAssign (staticRouteMap (hm ! mapIndex)) es\<rparr>)" for es
    by (simp add: wellFormedMap_def distinct_objectAssign)
  from wellFormed_list_update [OF assms this] True show ?thesis
    by (simp add: mountStatic_def Let_def)
qed

lemma remountEntry_bucket:
  "length (pathNames (snd (remountEntry pathJoin uri e))) = fst (remountEntry pathJoin uri e)"
  by (simp add: remountEntry_def Let_def)

lemma goodBuckets_pushEntry:
  assumes "goodBuckets m" and "length (pathNames (snd be)) = fst be"
  shows "goodBuckets (pushEntry m be)"
proof (cases "map_of m (fst be)")
  case None
  with assms show ?thesis
    by (simp add: pushEntry_def goodBuckets_update)
next
  case (Some es)
  from goodBuckets_lookup [OF assms(1) Some] assms(2)
  have "goodBuckets (AList.update (fst be) (es @ [snd be]) m)"
    by (intro goodBuckets_update [OF assms(1)]) auto
  with Some show ?thesis by (simp add: pushEntry_def)
qed

lemma goodBuckets_remountAll:
  "goodBuckets m \<Longrightarrow> goodBuckets (foldl (\<lambda>acc e. pushEntry acc (remountEntry pathJoin uri e)) m v)"
  by (induction v arbitrary: m) (simp_all add: goodBuckets_pushEntry remountEntry_bucket)

lemma wellFormed_mountNamedLoop:
  assumes "wellFormed hm" and "goodBuckets m"
  shows "wellFormed (stateOf (mountNamedLoop pathJoin uri mapIndex buckets m changed hm))"
  using assms
proof (induction buckets arbitrary: m changed hm)
  case Nil
  then show ?case by simp
next
  case (Cons kv buckets)
  obtain k v where kv: "kv = (k, v)" by (cases kv)
  let ?m' = "foldl (\<lambda>acc e. pushEntry acc (remountEntry pathJoin uri e)) m v"
  have m': "goodBuckets ?m'" using Cons.prems(2) by (rule goodBuckets_remountAll)
  show ?case
  proof (cases "changed \<or> v \<noteq> []")
    case False
    with Cons.IH [OF Cons.prems(1) m'] kv show ?thesis by (simp add: Let_def)
  next
    case True
    show ?thesis
    proof (cases "mapIndex < length hm")
      case False
      with True kv Cons.prems(1) show ?thesis by (auto simp add: Let_def)
    next
      case inrange: True
      let ?rm = "(hm ! mapIndex)\<lparr>namedRoutePartitionMap :=
                    objectAssign (namedRoutePartitionMap (hm ! mapIndex)) (bucketEntries ?m')\<rparr>"
      from wellFormed_nth [OF Cons.prems(1) inrange]
      have d: "distinct (map fst (staticRouteMap (hm ! mapIndex)))"
        and g: "goodBuckets (namedRoutePartitionMap (hm ! mapIndex))"
        by (simp_all add: wellFormedMap_def)
      from m' have "\<forall>(b, es) \<in> set (bucketEntries ?m'). es \<noteq> [] \<and> (\<forall>e \<in> set es. length (pathNames e) = b)"
        by (simp add: goodBuckets_def)
      from goodBuckets_objectAssign [OF g this] d have "wellFormedMap ?rm"
        by (simp add: wellFormedMap_def)
      from wellFormed_list_update [OF Cons.prems(1) this]
      have "wellFormed (hm[mapIndex := ?rm])" .
      from Cons.IH [OF this m'] True inrange kv show ?thesis
        by (auto simp add: Let_def)
    qed
  qed
qed

lemma goodBuckets_empty: "goodBuckets []"
  by (simp add: goodBuckets_def)

lemma wellFormed_mountLoop:
  "wellFormed hm \<Longrightarrow> wellFormed (stateOf (mountLoop pathJoin uri mapIndex routeMap hm))"
proof (induction routeMap arbitrary: mapIndex hm)
  case Nil
  then show ?case by simp
next
  case (Cons source routeMap)
  show ?case
    unfolding mountLoop.simps
    by (intro wellFormed_andThen wellFormed_mountStatic wellFormed_mountNamedLoop goodBuckets_empty
        Cons.IH Cons.prems)
qed

lemma wellFormed_use:
  assumes "wellFormed hm"
      and "\<And>router. args = UseRouter router \<Longrightarrow> wellFormed router"
  shows "wellFormed (stateOf (use pathJoin ix args hm))"
  using assms
  by (cases args)
     (simp_all add: wellFormed_mergeRouterMaps wellFormed_mountLoop wellFormed_all wellFormed_buildRequestMap)

lemma wellFormed_newRouter: "wellFormed (newRouter n)"
  by (simp add: wellFormed_def newRouter_def wellFormedMap_def emptyRouteMap_def goodBuckets_def)

lemma reachable_wellFormed:
  "r \<in> reachable pathJoin ix n \<Longrightarrow> wellFormed r"
proof (induction rule: reachable.induct)
  case constructed
  show ?case by (rule wellFormed_newRouter)
qed (simp_all add: get_def post_def put_def patch_def delete_def wellFormed_registerMethod
      wellFormed_all wellFormed_buildRequestMap wellFormed_mergeRouterMaps wellFormed_mountLoop)

subsection \<open>The partition invariant\<close>

lemma wellFormed_bucketInvariant: "wellFormed r \<Longrightarrow> bucketInvariant r"
  unfolding wellFormed_def wellFormedMap_def goodBuckets_def bucketInvariant_def by fastforce

lemma buildRequestMap_dynamic:
  assumes "mapIndex < length hm" and "\<not> regexCheckStaticURL uri"
  shows "\<exists>es e. map_of (namedRoutePartitionMap (stateOf (buildRequestMap mapIndex uri cbs hm) ! mapIndex))
                  (length (drop 1 (split (CHR ''/'') uri))) = Some (es @ [e]) \<and>
                pathNames e = drop 1 (split (CHR ''/'') uri) \<and> callbacks e = cbs"
proof -
  let ?rm = "hm ! mapIndex"
  let ?tokens = "split (CHR ''/'') uri"
  let ?e = "\<lparr>key = snd (createNamedRouteSearchKey ?tokens), params = fst (createNamedRouteSearchKey ?tokens),
              callbacks = cbs, pathNames = drop 1 ?tokens, useRegex = (\<not> regexCheckNamedPath uri)\<rparr>"
  have "map_of (namedRoutePartitionMap (stateOf (buildRequestMap mapIndex uri cbs hm) ! mapIndex))
          (length ?tokens - 1)
        = Some ((case map_of (namedRoutePartitionMap ?rm) (length ?tokens - 1) of None \<Rightarrow> [] | Some es \<Rightarrow> es) @ [?e])"
    using assms by (simp add: buildRequestMap_def Let_def update_conv' split: option.splits)
  then show ?thesis
    by (intro exI [of _ "case map_of (namedRoutePartitionMap ?rm) (length ?tokens - 1) of None \<Rightarrow> [] | Some es \<Rightarrow> es"]
        exI [of _ ?e]) simp
qed

text \<open>
  Claim C3, as the code has it. Every router built through the public interface, by any
  sequence of registrations and mounts (with or without a prefix, completed or failed),
  keeps the invariant that an entry of bucket \<open>b\<close> has exactly \<open>b\<close> path segments; and
  \<^verbatim>\<open>buildRequestMap\<close> appends the entry of a dynamic pattern to the bucket numbered by
  the length of its \<open>pathNames\<close>, the pattern split on the slash without the first piece.
\<close>

theorem bucket_is_segment_count:
  "(r \<in> reachable pathJoin ix n \<longrightarrow> bucketInvariant r) \<and>
   (mapIndex < length hm \<and> \<not> regexCheckStaticURL uri \<longrightarrow>
      (\<exists>es e. map_of (namedRoutePartitionMap (stateOf (buildRequestMap mapIndex uri cbs hm) ! mapIndex))
                 (length (drop 1 (split (CHR ''/'') uri))) = Some (es @ [e]) \<and>
               pathNames e = drop 1 (split (CHR ''/'') uri) \<and> callbacks e = cbs))"
  using reachable_wellFormed [THEN wellFormed_bucketInvariant] buildRequestMap_dynamic
  by blast

theorem bucket_is_segment_count_witness:
  "stateOf (get exampleIndex ''/user/:id'' [()] (newRouter 6)) \<in> reachable (\<lambda>a b. a @ b) exampleIndex 6 \<and>
   bucketInvariant (stateOf (get exampleIndex ''/user/:id'' [()] (newRouter 6))) \<and>
   (1::nat) < length (newRouter 6 :: unit RouteMap list) \<and> \<not> regexCheckStaticURL ''/user/:id'' \<and>
   (\<exists>es e. map_of (namedRoutePartitionMap (stateOf (buildRequestMap 1 ''/user/:id'' [()] (newRouter 6)) ! 1))
                (length [''user'', '':id''])
              = Some (es @ [e]) \<and>
            pathNames e = [''user'', '':id''] \<and> callbacks e = [()])"
proof -
  let ?r = "stateOf (get exampleIndex ''/user/:id'' [()] (newRouter 6)) :: unit RouteMap list"
  have r: "?r \<in> reachable (\<lambda>a b. a @ b) exampleIndex 6"
    by (intro reachable.after_get reachable.constructed)
  have i: "(1::nat) < length (newRouter 6 :: unit RouteMap list)"
    by (simp add: newRouter_def)
  have d: "\<not> regexCheckStaticURL ''/user/:id''"
    by (simp add: regexCheckStaticURL_def segmentChar_def wordChar_def)
  have s: "drop 1 (split (CHR ''/'') ''/user/:id'') = [''user'', '':id'']"
    by simp
  from bucket_is_segment_count [where r = ?r and pathJoin = "\<lambda>a b. a @ b" and ix = exampleIndex and n = 6
      and mapIndex = 1 and hm = "newRouter 6" and uri = "''/user/:id''" and cbs = "[()]"]
  show ?thesis
    unfolding s using r i d by blast
qed

text \<open>
  Claim C3 as stated gives the bucket as the number of path segments minus one, and
  \<open>b + 1\<close> segments to an entry of bucket \<open>b\<close>. Registering \<^verbatim>\<open>/user/:id\<close> stores an entry
  with two path segments in bucket 2.
\<close>

theorem bucket_is_segment_count_minus_one_counterexample:
  "namedRoutePartitionMap (stateOf (get exampleIndex ''/user/:id'' [()] (newRouter 6)) ! 1)
     = [(2, [\<lparr>key = ''/user/'' @ captureGroup, params = [''id''], callbacks = [()],
             pathNames = [''user'', '':id''], useRegex = False\<rparr>])] \<and>
   length [''user'', '':id''] - 1 \<noteq> (2::nat) \<and> length [''user'', '':id''] \<noteq> (2::nat) + 1"
  by (simp add: get_def registerMethod_def buildRequestMap_def newRouter_def exampleIndex_def
      emptyRouteMap_def regexCheckStaticURL_def regexCheckNamedPath_def segmentChar_def wordChar_def
      createNamedRouteSearchKey_def startsWithColon_def eval_nat_numeral Let_def)

subsection \<open>The example routers, evaluated\<close>

lemma split_examples:
  "split (CHR ''/'') ''/a/:x'' = [[], ''a'', '':x'']"
  "split (CHR ''/'') ''/x/('' = [[], ''x'', ''('']"
  "split (CHR ''/'') ''/d/:id'' = [[], ''d'', '':id'']"
  "split (CHR ''/'') ''/:y/b'' = [[], '':y'', ''b'']"
  "split (CHR ''/'') ''/:z/:w'' = [[], '':z'', '':w'']"
  "split (CHR ''/'') ''/b/c'' = [[], ''b'', ''c'']"
  "split (CHR ''/'') ''/x/y'' = [[], ''x'', ''y'']"
  "split (CHR ''/'') ''/a/b'' = [[], ''a'', ''b'']"
  "split (CHR ''/'') ''/a/z'' = [[], ''a'', ''z'']"
  "split (CHR ''/'') ''/d/7'' = [[], ''d'', ''7'']"
  "split (CHR ''/'') ''/q/b'' = [[], ''q'', ''b'']"
  by simp_all

lemma exampleRouter_eq:
  "exampleRouter =
     [emptyRouteMap,
      \<lparr>namedRoutePartitionMap =
         [(2, [\<lparr>key = ''/a/'' @ captureGroup, params = [''x''], callbacks = [answer 1],
                 pathNames = [''a'', '':x''], useRegex = False\<rparr>])],
       staticRouteMap = [(''/a/b'', [answer 2]), (''/boom'', [passOn 3, failing, answer 4])]\<rparr>,
      emptyRouteMap, emptyRouteMap, emptyRouteMap, emptyRouteMap]"
  by (simp add: exampleRouter_def get_def registerMethod_def buildRequestMap_def newRouter_def exampleIndex_def
      emptyRouteMap_def regexCheckStaticURL_def regexCheckNamedPath_def segmentChar_def wordChar_def
      createNamedRouteSearchKey_def startsWithColon_def eval_nat_numeral Let_def split_examples)

lemma pattern_kinds:
  "\<not> regexCheckStaticURL ''/a/:x''" "regexCheckNamedPath ''/a/:x''"
  "\<not> regexCheckStaticURL ''/d/:id''" "regexCheckNamedPath ''/d/:id''"
  "\<not> regexCheckStaticURL ''/:y/b''" "regexCheckNamedPath ''/:y/b''"
  "\<not> regexCheckStaticURL ''/:z/:w''" "regexCheckNamedPath ''/:z/:w''"
  "\<not> regexCheckStaticURL ''/x/(''" "\<not> regexCheckNamedPath ''/x/(''"
  "regexCheckStaticURL ''/a/b''" "regexCheckStaticURL ''/''"
  by (simp_all add: regexCheckStaticURL_def regexCheckNamedPath_def segmentChar_def wordChar_def)



lemma overlapRouter_eq:
  "overlapRouter =
     [emptyRouteMap,
      \<lparr>namedRoutePartitionMap = [(2, [entryAX, entryYB, entryZW])], staticRouteMap = []\<rparr>,
      emptyRouteMap, emptyRouteMap, emptyRouteMap, emptyRouteMap]"
  by (simp add: overlapRouter_def get_def registerMethod_def buildRequestMap_def newRouter_def exampleIndex_def
      emptyRouteMap_def pattern_kinds createNamedRouteSearchKey_def startsWithColon_def eval_nat_numeral Let_def
      split_examples entryAX_def entryYB_def entryZW_def)




lemma example_requestPath:
  "requestPath (exampleContext ''/b/c'') = ''/b/c''"
  "requestPath (exampleContext ''/boom'') = ''/boom''"
  "requestPath (exampleContext ''/x/y'') = ''/x/y''"
  "requestPath (exampleContext ''/a/b'') = ''/a/b''"
  "requestPath (exampleContext ''/a/z'') = ''/a/z''"
  "requestPath (exampleContext ''/d/7'') = ''/d/7''"
  "requestPath (exampleContext ''/q/b'') = ''/q/b''"
  "requestPath (exampleContext ''toString'') = ''toString''"
  by (simp_all add: requestPath_def exampleContext_def exampleRequest_def normalizeURL_def)

lemma example_attachQuery:
  "attachQuery (exampleContext ''/b/c'') = exampleContext ''/b/c''"
  "attachQuery (exampleContext ''/boom'') = exampleContext ''/boom''"
  "attachQuery (exampleContext ''/x/y'') = exampleContext ''/x/y''"
  "attachQuery (exampleContext ''/a/b'') = exampleContext ''/a/b''"
  "attachQuery (exampleContext ''/a/z'') = exampleContext ''/a/z''"
  "attachQuery (exampleContext ''/d/7'') = exampleContext ''/d/7''"
  "attachQuery (exampleContext ''/q/b'') = exampleContext ''/q/b''"
  "attachQuery (exampleContext ''toString'') = exampleContext ''toString''"
  by (simp_all add: attachQuery_def exampleContext_def exampleRequest_def)

lemma example_middlewares: "callTopLevelMiddlewares exampleIndex exampleRouter c = Normal () c"
  by (simp add: callTopLevelMiddlewares_def exampleRouter_eq exampleIndex_def emptyRouteMap_def)


lemma example_ensureParams:
  "ensureParams (exampleContext u) = (exampleContext u)\<lparr>request := emptyBagRequest u\<rparr>"
  by (simp add: ensureParams_def exampleContext_def emptyBagRequest_def exampleRequest_def)




lemma emptyBagRequest_params: "request_params (emptyBagRequest u) = Some (\<lambda>_. None)"
  by (simp add: emptyBagRequest_def)


subsection \<open>Requests that no route serves\<close>



lemma ensureParams_frame:
  "response (ensureParams c) = response c" "app (ensureParams c) = app c"
  "request_params (request (ensureParams c)) \<noteq> None"
  by (simp_all add: ensureParams_def)


lemma tryBlock_dynamic:
  assumes "mapIndex < length hm"
      and "getProperty (staticRouteMap (hm ! mapIndex)) URL = NoProperty"
      and "map_of (namedRoutePartitionMap (hm ! mapIndex)) (length (drop 1 (split (CHR ''/'') URL)))
             = Some (pre @ e # es)"
      and "rejectAll rx URL (drop 1 (split (CHR ''/'') URL)) pre (request (ensureParams c)) = Some r0"
  shows "tryBlock rx apiVersion ix hm mapIndex URL throwOnNotFound c
           = scanBucket rx ix hm URL (drop 1 (split (CHR ''/'') URL)) (e # es) ((ensureParams c)\<lparr>request := r0\<rparr>)"
  using assms(1-3) scanBucket_rejected [OF assms(4)]
  by (simp add: tryBlock_def Let_def)




subsection \<open>Priority between overlapping patterns\<close>

lemma dynamic_then_static:
  assumes "GET ix < n"
  shows "stateOf (get ix ''/a/b'' fn2 (stateOf (get ix ''/a/:x'' fn1 (newRouter n)))) ! GET ix
     = (if fn1 = [] then if fn2 = [] then emptyRouteMap else \<lparr>namedRoutePartitionMap = [], staticRouteMap = [(''/a/b'', fn2)]\<rparr>
        else \<lparr>namedRoutePartitionMap =
               [(2, [\<lparr>key = ''/a/'' @ captureGroup, params = [''x''], callbacks = fn1,
                      pathNames = [''a'', '':x''], useRegex = False\<rparr>])],
             staticRouteMap = (if fn2 = [] then [] else [(''/a/b'', fn2)])\<rparr>)"
  using assms
  by (simp add: get_def registerMethod_def buildRequestMap_def newRouter_def emptyRouteMap_def pattern_kinds
      split_examples createNamedRouteSearchKey_def startsWithColon_def Let_def)

lemma dynamic_then_dynamic:
  assumes "GET ix < n" and "fn1 \<noteq> []" and "fn2 \<noteq> []"
  shows "stateOf (get ix ''/:y/b'' fn2 (stateOf (get ix ''/a/:x'' fn1 (newRouter n)))) ! GET ix
     = \<lparr>namedRoutePartitionMap =
               [(2, [\<lparr>key = ''/a/'' @ captureGroup, params = [''x''], callbacks = fn1,
                      pathNames = [''a'', '':x''], useRegex = False\<rparr>,
                     \<lparr>key = ''/'' @ captureGroup @ ''/b'', params = [''y''], callbacks = fn2,
                      pathNames = ['':y'', ''b''], useRegex = False\<rparr>])],
             staticRouteMap = []\<rparr>"
  using assms
  by (simp add: get_def registerMethod_def buildRequestMap_def newRouter_def emptyRouteMap_def pattern_kinds
      split_examples createNamedRouteSearchKey_def startsWithColon_def Let_def)

lemma length_registered:
  "length (stateOf (buildRequestMap i uri fn hm)) = length hm"
  by (simp add: buildRequestMap_def Let_def split: option.splits property.splits)

lemma length_get: "length (stateOf (get ix uri fn hm)) = length hm"
  by (simp add: get_def registerMethod_def length_registered)

lemma match_a_x:
  assumes "request_params r = Some b"
  shows "fastPathMatch [''a'', ''b''] [''a'', '':x''] r = Normal True (r\<lparr>request_params := Some (b(''x'' \<mapsto> ''b''))\<rparr>)"
  using assms
  by (simp add: fastPathMatch_eq positionalMatch_def startsWithColon_def assignParam_def eval_nat_numeral)

lemma tryBlock_static:
  "mapIndex < length hm \<Longrightarrow> map_of (staticRouteMap (hm ! mapIndex)) URL = Some chain \<Longrightarrow>
   tryBlock rx apiVersion ix hm mapIndex URL throwOnNotFound c
     = (case callTopLevelMiddlewares ix hm c of
          Abrupt _ c' \<Rightarrow> Raise c'
        | Normal _ c' \<Rightarrow>
            (case runChain chain c' of
               Abrupt _ c'' \<Rightarrow> Raise c''
             | Normal _ c'' \<Rightarrow> Return c''))"
  by (simp add: tryBlock_def)

lemma buildRequestMap_appends:
  assumes "mapIndex < length hm" and "\<not> regexCheckStaticURL uri"
  shows "map_of (namedRoutePartitionMap (stateOf (buildRequestMap mapIndex uri cbs hm) ! mapIndex))
           (length (drop 1 (split (CHR ''/'') uri)))
         = Some ((case map_of (namedRoutePartitionMap (hm ! mapIndex)) (length (drop 1 (split (CHR ''/'') uri))) of
                    None \<Rightarrow> [] | Some es \<Rightarrow> es)
                 @ [\<lparr>key = snd (createNamedRouteSearchKey (split (CHR ''/'') uri)),
                      params = fst (createNamedRouteSearchKey (split (CHR ''/'') uri)),
                      callbacks = cbs,
                      pathNames = drop 1 (split (CHR ''/'') uri),
                      useRegex = (\<not> regexCheckNamedPath uri)\<rparr>])"
    and "b \<noteq> length (drop 1 (split (CHR ''/'') uri)) \<Longrightarrow>
         map_of (namedRoutePartitionMap (stateOf (buildRequestMap mapIndex uri cbs hm) ! mapIndex)) b
           = map_of (namedRoutePartitionMap (hm ! mapIndex)) b"
  using assms by (simp_all add: buildRequestMap_def Let_def update_conv' split: option.splits)

lemma first_accepting_entry:
  assumes index: "mapIndex < length hm"
      and none: "getProperty (staticRouteMap (hm ! mapIndex)) (requestPath c) = NoProperty"
      and bucket: "map_of (namedRoutePartitionMap (hm ! mapIndex)) (length (drop 1 (split (CHR ''/'') (requestPath c))))
                     = Some (pre @ e # es)"
      and rejected: "rejectAll rx (requestPath c) (drop 1 (split (CHR ''/'') (requestPath c))) pre
                       (request (ensureParams (attachQuery c))) = Some r0"
      and accepted: "matchEntry rx (requestPath c) (drop 1 (split (CHR ''/'') (requestPath c))) e r0 = Normal True r"
      and chain: "callbacks e \<noteq> []"
  shows "processHTTPMethod rx apiVersion ix hm mapIndex throwOnNotFound c =
           (case callTopLevelMiddlewares ix hm ((ensureParams (attachQuery c))\<lparr>request := r\<rparr>) of
              Abrupt _ c' \<Rightarrow> routeNotFound apiVersion c'
            | Normal _ c' \<Rightarrow>
                (case runChain (callbacks e) c' of
                   Abrupt _ c'' \<Rightarrow> routeNotFound apiVersion c''
                 | Normal _ c'' \<Rightarrow> c''))"
  unfolding processHTTPMethod_def tryBlock_dynamic [OF index none bucket rejected]
  using accepted chain by (simp split: completion.splits)

lemma overlapping_patterns_example:
  assumes index: "GET ix < n" and fn1: "fn1 \<noteq> []" and fn2: "fn2 \<noteq> []"
      and path: "requestPath c = ''/a/b''"
  shows "processHTTPMethod rx apiVersion ix
           (stateOf (get ix ''/a/b'' fn2 (stateOf (get ix ''/a/:x'' fn1 (newRouter n))))) (GET ix) throwOnNotFound c
         = (case callTopLevelMiddlewares ix
                   (stateOf (get ix ''/a/b'' fn2 (stateOf (get ix ''/a/:x'' fn1 (newRouter n))))) (attachQuery c) of
              Abrupt _ c' \<Rightarrow> routeNotFound apiVersion c'
            | Normal _ c' \<Rightarrow>
                (case runChain fn2 c' of
                   Abrupt _ c'' \<Rightarrow> routeNotFound apiVersion c''
                 | Normal _ c'' \<Rightarrow> c'')) \<and>
         processHTTPMethod rx apiVersion ix
           (stateOf (get ix ''/:y/b'' fn2 (stateOf (get ix ''/a/:x'' fn1 (newRouter n))))) (GET ix) throwOnNotFound c
         = (case callTopLevelMiddlewares ix
                   (stateOf (get ix ''/:y/b'' fn2 (stateOf (get ix ''/a/:x'' fn1 (newRouter n)))))
                   (withParam ''x'' ''b'' (ensureParams (attachQuery c))) of
              Abrupt _ c' \<Rightarrow> routeNotFound apiVersion c'
            | Normal _ c' \<Rightarrow>
                (case runChain fn1 c' of
                   Abrupt _ c'' \<Rightarrow> routeNotFound apiVersion c''
                 | Normal _ c'' \<Rightarrow> c''))"
proof -
  let ?r1 = "stateOf (get ix ''/a/b'' fn2 (stateOf (get ix ''/a/:x'' fn1 (newRouter n))))"
  let ?r2 = "stateOf (get ix ''/:y/b'' fn2 (stateOf (get ix ''/a/:x'' fn1 (newRouter n))))"
  let ?c = "ensureParams (attachQuery c)"
  have len: "GET ix < length ?r1" "GET ix < length ?r2"
    using index by (simp_all add: length_get newRouter_def)
  have first: "tryBlock rx apiVersion ix ?r1 (GET ix) ''/a/b'' throwOnNotFound (attachQuery c)
      = (case callTopLevelMiddlewares ix ?r1 (attachQuery c) of
              Abrupt _ c' \<Rightarrow> Raise c'
            | Normal _ c' \<Rightarrow>
                (case runChain fn2 c' of
                   Abrupt _ c'' \<Rightarrow> Raise c''
                 | Normal _ c'' \<Rightarrow> Return c''))"
    using len fn1 fn2 by (simp add: tryBlock_def dynamic_then_static [OF index])
  obtain b where b: "request_params (request ?c) = Some b"
    using ensureParams_frame(3) [of "attachQuery c"] by auto
  have w: "?c\<lparr>request := (request ?c)\<lparr>request_params := Some (b(''x'' \<mapsto> ''b''))\<rparr>\<rparr> = withParam ''x'' ''b'' ?c"
    using b by (simp add: withParam_def assignParam_def)
  have second: "tryBlock rx apiVersion ix ?r2 (GET ix) ''/a/b'' throwOnNotFound (attachQuery c)
      = (case callTopLevelMiddlewares ix ?r2 (withParam ''x'' ''b'' ?c) of
              Abrupt _ c' \<Rightarrow> Raise c'
            | Normal _ c' \<Rightarrow>
                (case runChain fn1 c' of
                   Abrupt _ c'' \<Rightarrow> Raise c''
                 | Normal _ c'' \<Rightarrow> Return c''))"
    using len fn1 fn2
    by (simp add: tryBlock_def dynamic_then_dynamic [OF index fn1 fn2] split_examples matchEntry_def
        match_a_x [OF b] w cong: completion.case_cong)
  show ?thesis
    unfolding processHTTPMethod_def path first second
    by (simp split: completion.splits)
qed

text \<open>
  Claim C2, as the code has it. Registration order decides among the entries of a
  bucket: \<^verbatim>\<open>buildRequestMap\<close> puts the entry of a dynamic pattern behind the entries already
  in its bucket and leaves the other buckets alone, and \<^verbatim>\<open>processHTTPMethod\<close> serves a
  path that the static map does not have from the first entry of the bucket, in this
  order, whose test accepts it: the entries before it have rejected the path, and what
  comes behind it in the bucket is not tested. A static pattern is not in any bucket:
  with \<^verbatim>\<open>/a/:x\<close> and \<^verbatim>\<open>/a/b\<close> registered in this order under GET, a request for
  \<^verbatim>\<open>/a/b\<close> runs the chain of \<^verbatim>\<open>/a/b\<close>, on a request in which nothing has been captured,
  while with \<^verbatim>\<open>/a/:x\<close> and \<^verbatim>\<open>/:y/b\<close> registered in this order it runs the chain of
  \<^verbatim>\<open>/a/:x\<close>, with \<open>x\<close> captured as \<^verbatim>\<open>b\<close> and nothing else written.
\<close>

theorem registration_order_decides_within_bucket:
  "(mapIndex < length hm \<and> \<not> regexCheckStaticURL uri \<longrightarrow>
      map_of (namedRoutePartitionMap (stateOf (buildRequestMap mapIndex uri cbs hm) ! mapIndex))
          (length (drop 1 (split (CHR ''/'') uri)))
        = Some ((case map_of (namedRoutePartitionMap (hm ! mapIndex)) (length (drop 1 (split (CHR ''/'') uri))) of
                   None \<Rightarrow> [] | Some registered \<Rightarrow> registered)
                @ [\<lparr>key = snd (createNamedRouteSearchKey (split (CHR ''/'') uri)),
                     params = fst (createNamedRouteSearchKey (split (CHR ''/'') uri)),
                     callbacks = cbs,
                     pathNames = drop 1 (split (CHR ''/'') uri),
                     useRegex = (\<not> regexCheckNamedPath uri)\<rparr>]) \<and>
      (\<forall>b. b \<noteq> length (drop 1 (split (CHR ''/'') uri)) \<longrightarrow>
         map_of (namedRoutePartitionMap (stateOf (buildRequestMap mapIndex uri cbs hm) ! mapIndex)) b
           = map_of (namedRoutePartitionMap (hm ! mapIndex)) b)) \<and>
   (mapIndex < length hm \<and>
    getProperty (staticRouteMap (hm ! mapIndex)) (requestPath c) = NoProperty \<and>
    map_of (namedRoutePartitionMap (hm ! mapIndex)) (length (drop 1 (split (CHR ''/'') (requestPath c))))
      = Some (pre @ e # es) \<and>
    rejectAll rx (requestPath c) (drop 1 (split (CHR ''/'') (requestPath c))) pre
      (request (ensureParams (attachQuery c))) = Some r0 \<and>
    matchEntry rx (requestPath c) (drop 1 (split (CHR ''/'') (requestPath c))) e r0 = Normal True r \<and>
    callbacks e \<noteq> [] \<longrightarrow>
      processHTTPMethod rx apiVersion ix hm mapIndex throwOnNotFound c =
        (case callTopLevelMiddlewares ix hm ((ensureParams (attachQuery c))\<lparr>request := r\<rparr>) of
           Abrupt _ c' \<Rightarrow> routeNotFound apiVersion c'
         | Normal _ c' \<Rightarrow>
             (case runChain (callbacks e) c' of
                Abrupt _ c'' \<Rightarrow> routeNotFound apiVersion c''
              | Normal _ c'' \<Rightarrow> c''))) \<and>
   (GET ix < n \<and> fn1 \<noteq> [] \<and> fn2 \<noteq> [] \<and> requestPath c = ''/a/b'' \<longrightarrow>
      processHTTPMethod rx apiVersion ix
          (stateOf (get ix ''/a/b'' fn2 (stateOf (get ix ''/a/:x'' fn1 (newRouter n))))) (GET ix) throwOnNotFound c
        = (case callTopLevelMiddlewares ix
                  (stateOf (get ix ''/a/b'' fn2 (stateOf (get ix ''/a/:x'' fn1 (newRouter n))))) (attachQuery c) of
             Abrupt _ c' \<Rightarrow> routeNotFound apiVersion c'
           | Normal _ c' \<Rightarrow>
               (case runChain fn2 c' of
                  Abrupt _ c'' \<Rightarrow> routeNotFound apiVersion c''
                | Normal _ c'' \<Rightarrow> c'')) \<and>
      processHTTPMethod rx apiVersion ix
          (stateOf (get ix ''/:y/b'' fn2 (stateOf (get ix ''/a/:x'' fn1 (newRouter n))))) (GET ix) throwOnNotFound c
        = (case callTopLevelMiddlewares ix
                  (stateOf (get ix ''/:y/b'' fn2 (stateOf (get ix ''/a/:x'' fn1 (newRouter n)))))
                  (withParam ''x'' ''b'' (ensureParams (attachQuery c))) of
             Abrupt _ c' \<Rightarrow> routeNotFound apiVersion c'
           | Normal _ c' \<Rightarrow>
               (case runChain fn1 c' of
                  Abrupt _ c'' \<Rightarrow> routeNotFound apiVersion c''
                | Normal _ c'' \<Rightarrow> c'')))"
  using buildRequestMap_appends [of mapIndex hm uri] first_accepting_entry [of mapIndex hm c pre e es rx r0 r]
    overlapping_patterns_example [of ix n fn1 fn2 c]
  by (intro conjI impI allI) blast+

lemma singleRouter_eq:
  "stateOf (get exampleIndex ''/a/:x'' [answer 1] (newRouter 6)) =
     [emptyRouteMap,
      \<lparr>namedRoutePartitionMap = [(2, [entryAX])], staticRouteMap = []\<rparr>,
      emptyRouteMap, emptyRouteMap, emptyRouteMap, emptyRouteMap]"
  by (simp add: get_def registerMethod_def buildRequestMap_def newRouter_def exampleIndex_def
      emptyRouteMap_def pattern_kinds createNamedRouteSearchKey_def startsWithColon_def eval_nat_numeral Let_def
      split_examples entryAX_def)

lemma overlap_examples:
  "request_params r = Some b \<Longrightarrow>
   matchEntry rx ''/q/b'' [''q'', ''b''] entryAX r = Normal False (r\<lparr>request_params := Some (b(''x'' \<mapsto> ''b''))\<rparr>)"
  "request_params r = Some b \<Longrightarrow>
   matchEntry rx ''/q/b'' [''q'', ''b''] entryYB r = Normal True (r\<lparr>request_params := Some (b(''y'' \<mapsto> ''q''))\<rparr>)"
  by (simp_all add: matchEntry_def entryAX_def entryYB_def fastPathMatch_eq positionalMatch_def startsWithColon_def
      assignParam_def eval_nat_numeral)

lemma overlap_middlewares: "callTopLevelMiddlewares exampleIndex overlapRouter c = Normal () c"
  by (simp add: callTopLevelMiddlewares_def overlapRouter_eq exampleIndex_def emptyRouteMap_def)

theorem registration_order_decides_within_bucket_witness:
  "(1::nat) < length (stateOf (get exampleIndex ''/a/:x'' [answer 1] (newRouter 6))) \<and>
   \<not> regexCheckStaticURL ''/:y/b'' \<and>
   map_of (namedRoutePartitionMap (stateOf (get exampleIndex ''/a/:x'' [answer 1] (newRouter 6)) ! 1)) 2
     = Some [entryAX] \<and>
   map_of (namedRoutePartitionMap
       (stateOf (buildRequestMap 1 ''/:y/b'' [answer 2] (stateOf (get exampleIndex ''/a/:x'' [answer 1] (newRouter 6)))) ! 1)) 2
     = Some [entryAX, entryYB] \<and>
   (1::nat) \<noteq> length (drop 1 (split (CHR ''/'') ''/:y/b'')) \<and>
   map_of (namedRoutePartitionMap
       (stateOf (buildRequestMap 1 ''/:y/b'' [answer 2] (stateOf (get exampleIndex ''/a/:x'' [answer 1] (newRouter 6)))) ! 1)) 1
     = None \<and>
   (1::nat) < length overlapRouter \<and>
   getProperty (staticRouteMap (overlapRouter ! 1)) (requestPath (exampleContext ''/q/b'')) = NoProperty \<and>
   map_of (namedRoutePartitionMap (overlapRouter ! 1))
       (length (drop 1 (split (CHR ''/'') (requestPath (exampleContext ''/q/b'')))))
     = Some ([entryAX] @ entryYB # [entryZW]) \<and>
   rejectAll namedKeyRegExp ''/q/b'' [''q'', ''b''] [entryAX] (emptyBagRequest ''/q/b'')
     = Some ((emptyBagRequest ''/q/b'')\<lparr>request_params := Some [''x'' \<mapsto> ''b'']\<rparr>) \<and>
   matchEntry namedKeyRegExp ''/q/b'' [''q'', ''b''] entryYB
       ((emptyBagRequest ''/q/b'')\<lparr>request_params := Some [''x'' \<mapsto> ''b'']\<rparr>)
     = Normal True ((emptyBagRequest ''/q/b'')\<lparr>request_params := Some [''x'' \<mapsto> ''b'', ''y'' \<mapsto> ''q'']\<rparr>) \<and>
   callbacks entryYB \<noteq> [] \<and>
   processHTTPMethod namedKeyRegExp ''v'' exampleIndex overlapRouter 1 True (exampleContext ''/q/b'')
     = (exampleContext ''/q/b'')
         \<lparr>request := (emptyBagRequest ''/q/b'')\<lparr>request_params := Some [''x'' \<mapsto> ''b'', ''y'' \<mapsto> ''q'']\<rparr>,
          response := [End None], app := [2]\<rparr> \<and>
   GET exampleIndex < 6 \<and> [answer 1] \<noteq> [] \<and> [answer 2] \<noteq> [] \<and>
   requestPath (exampleContext ''/a/b'') = ''/a/b'' \<and>
   app (processHTTPMethod namedKeyRegExp ''v'' exampleIndex
          (stateOf (get exampleIndex ''/a/b'' [answer 2] (stateOf (get exampleIndex ''/a/:x'' [answer 1] (newRouter 6)))))
          (GET exampleIndex) True (exampleContext ''/a/b'')) = [2] \<and>
   request_params (request (processHTTPMethod namedKeyRegExp ''v'' exampleIndex
          (stateOf (get exampleIndex ''/a/b'' [answer 2] (stateOf (get exampleIndex ''/a/:x'' [answer 1] (newRouter 6)))))
          (GET exampleIndex) True (exampleContext ''/a/b''))) = None \<and>
   app (processHTTPMethod namedKeyRegExp ''v'' exampleIndex
          (stateOf (get exampleIndex ''/:y/b'' [answer 2] (stateOf (get exampleIndex ''/a/:x'' [answer 1] (newRouter 6)))))
          (GET exampleIndex) True (exampleContext ''/a/b'')) = [1] \<and>
   map_option (\<lambda>b. (b ''x'', b ''y''))
     (request_params (request (processHTTPMethod namedKeyRegExp ''v'' exampleIndex
          (stateOf (get exampleIndex ''/:y/b'' [answer 2] (stateOf (get exampleIndex ''/a/:x'' [answer 1] (newRouter 6)))))
          (GET exampleIndex) True (exampleContext ''/a/b''))))
     = Some (Some ''b'', None)"
proof -
  let ?rx = namedKeyRegExp
  let ?single = "stateOf (get exampleIndex ''/a/:x'' [answer 1] (newRouter 6))"
  note whole = registration_order_decides_within_bucket [where rx = ?rx and apiVersion = "''v''"
      and ix = exampleIndex and throwOnNotFound = True]

  have i1: "(1::nat) < length ?single" unfolding singleRouter_eq by simp
  have dyn: "\<not> regexCheckStaticURL ''/:y/b''" by (rule pattern_kinds)
  have before: "map_of (namedRoutePartitionMap (?single ! 1)) 2 = Some [entryAX]"
    unfolding singleRouter_eq by simp
  note A = whole [where mapIndex = 1 and hm = ?single and uri = "''/:y/b''" and cbs = "[answer 2]",
      THEN conjunct1, rule_format, OF conjI [OF i1 dyn], THEN conjunct1]
  have A': "map_of (namedRoutePartitionMap (stateOf (buildRequestMap 1 ''/:y/b'' [answer 2] ?single) ! 1)) 2
     = Some [entryAX, entryYB]"
    using A before
    by (simp add: split_examples createNamedRouteSearchKey_def startsWithColon_def pattern_kinds entryYB_def
        eval_nat_numeral)
  have other: "(1::nat) \<noteq> length (drop 1 (split (CHR ''/'') ''/:y/b''))"
    by simp
  note A2 = whole [where mapIndex = 1 and hm = ?single and uri = "''/:y/b''" and cbs = "[answer 2]",
      THEN conjunct1, rule_format, OF conjI [OF i1 dyn], THEN conjunct2, rule_format, OF other]
  have "map_of (namedRoutePartitionMap (?single ! 1)) 1 = None"
    unfolding singleRouter_eq by simp
  with A2 have A2': "map_of (namedRoutePartitionMap (stateOf (buildRequestMap 1 ''/:y/b'' [answer 2] ?single) ! 1)) 1
     = None"
    by simp

  let ?c = "exampleContext ''/q/b''"
  let ?xb = "(emptyBagRequest ''/q/b'')\<lparr>request_params := Some [''x'' \<mapsto> ''b'']\<rparr>"
  let ?xq = "(emptyBagRequest ''/q/b'')\<lparr>request_params := Some [''x'' \<mapsto> ''b'', ''y'' \<mapsto> ''q'']\<rparr>"
  have i2: "(1::nat) < length overlapRouter" by (simp add: overlapRouter_eq)
  have none: "getProperty (staticRouteMap (overlapRouter ! 1)) (requestPath ?c) = NoProperty"
    by (simp add: example_requestPath example_attachQuery overlapRouter_eq)
  have bucket: "map_of (namedRoutePartitionMap (overlapRouter ! 1))
       (length (drop 1 (split (CHR ''/'') (requestPath ?c)))) = Some ([entryAX] @ entryYB # [entryZW])"
    by (simp add: example_requestPath example_attachQuery overlapRouter_eq split_examples)
  have rejected: "rejectAll ?rx ''/q/b'' [''q'', ''b''] [entryAX] (emptyBagRequest ''/q/b'') = Some ?xb"
    by (simp add: overlap_examples emptyBagRequest_params)
  have rejected': "rejectAll ?rx (requestPath ?c) (drop 1 (split (CHR ''/'') (requestPath ?c))) [entryAX]
       (request (ensureParams (attachQuery ?c))) = Some ?xb"
    using rejected by (simp add: example_requestPath example_attachQuery split_examples example_ensureParams)
  have accepted: "matchEntry ?rx ''/q/b'' [''q'', ''b''] entryYB ?xb = Normal True ?xq"
    by (simp add: overlap_examples)
  have accepted': "matchEntry ?rx (requestPath ?c) (drop 1 (split (CHR ''/'') (requestPath ?c))) entryYB ?xb
      = Normal True ?xq"
    using accepted by (simp add: example_requestPath example_attachQuery split_examples)
  have chain: "callbacks entryYB \<noteq> []" by (simp add: entryYB_def)
  note B = whole [where mapIndex = 1 and hm = overlapRouter and c = ?c and pre = "[entryAX]" and e = entryYB
      and es = "[entryZW]" and ?r0.0 = ?xb and r = ?xq,
      THEN conjunct2, THEN conjunct1, rule_format,
      OF conjI [OF i2 conjI [OF none conjI [OF bucket conjI [OF rejected' conjI [OF accepted' chain]]]]]]
  have ctx: "(ensureParams (attachQuery ?c))\<lparr>request := ?xq\<rparr> = ?c\<lparr>request := ?xq\<rparr>"
    by (simp add: example_requestPath example_attachQuery example_ensureParams)
  have run: "runChain (callbacks entryYB) (?c\<lparr>request := ?xq\<rparr>)
      = Normal () (?c\<lparr>request := ?xq, response := [End None], app := [2]\<rparr>)"
    by (simp add: entryYB_def answer_def endResponse_def exampleContext_def)
  have B': "processHTTPMethod ?rx ''v'' exampleIndex overlapRouter 1 True ?c
      = ?c\<lparr>request := ?xq, response := [End None], app := [2]\<rparr>"
    using B by (simp only: ctx overlap_middlewares run completion.case)

  let ?r1 = "stateOf (get exampleIndex ''/a/b'' [answer 2] (stateOf (get exampleIndex ''/a/:x'' [answer 1] (newRouter 6))))"
  let ?r2 = "stateOf (get exampleIndex ''/:y/b'' [answer 2] (stateOf (get exampleIndex ''/a/:x'' [answer 1] (newRouter 6))))"
  let ?ab = "exampleContext ''/a/b''"
  let ?ab' = "withParam ''x'' ''b'' (ensureParams ?ab)"
  have index: "GET exampleIndex < 6" by (simp add: exampleIndex_def)
  have fn1: "[answer 1] \<noteq> []" and fn2: "[answer 2] \<noteq> []" by simp_all
  have path: "requestPath ?ab = ''/a/b''"
    by (simp add: example_requestPath example_attachQuery)
  have query: "attachQuery ?ab = ?ab"
    by (simp add: example_requestPath example_attachQuery)
  have mw1: "callTopLevelMiddlewares exampleIndex ?r1 c = Normal () c" for c :: "nat list ApplicationContext"
    by (simp add: callTopLevelMiddlewares_def get_def registerMethod_def buildRequestMap_def newRouter_def
        exampleIndex_def emptyRouteMap_def pattern_kinds eval_nat_numeral Let_def)
  have mw2: "callTopLevelMiddlewares exampleIndex ?r2 c = Normal () c" for c :: "nat list ApplicationContext"
    by (simp add: callTopLevelMiddlewares_def get_def registerMethod_def buildRequestMap_def newRouter_def
        exampleIndex_def emptyRouteMap_def pattern_kinds eval_nat_numeral Let_def)
  have run2: "runChain [answer 2] ?ab = Normal () (endResponse (?ab\<lparr>app := [2]\<rparr>))"
    by (simp add: answer_def exampleContext_def)
  have run1: "runChain [answer 1] ?ab' = Normal () (endResponse (?ab'\<lparr>app := [1]\<rparr>))"
    by (simp add: answer_def withParam_def ensureParams_def exampleContext_def exampleRequest_def)
  note inst = whole [where n = 6 and ?fn1.0 = "[answer 1]" and ?fn2.0 = "[answer 2]" and c = ?ab,
      THEN conjunct2, THEN conjunct2, rule_format, OF conjI [OF index conjI [OF fn1 conjI [OF fn2 path]]]]
  have one: "processHTTPMethod ?rx ''v'' exampleIndex ?r1 (GET exampleIndex) True ?ab
      = endResponse (?ab\<lparr>app := [2]\<rparr>)"
    using inst [THEN conjunct1] by (simp only: query mw1 run2 completion.case)
  have two: "processHTTPMethod ?rx ''v'' exampleIndex ?r2 (GET exampleIndex) True ?ab
      = endResponse (?ab'\<lparr>app := [1]\<rparr>)"
    using inst [THEN conjunct2] by (simp only: query mw2 run1 completion.case)
  have C': "app (processHTTPMethod ?rx ''v'' exampleIndex ?r1 (GET exampleIndex) True ?ab) = [2]"
    "request_params (request (processHTTPMethod ?rx ''v'' exampleIndex ?r1 (GET exampleIndex) True ?ab)) = None"
    "app (processHTTPMethod ?rx ''v'' exampleIndex ?r2 (GET exampleIndex) True ?ab) = [1]"
    "map_option (\<lambda>b. (b ''x'', b ''y''))
       (request_params (request (processHTTPMethod ?rx ''v'' exampleIndex ?r2 (GET exampleIndex) True ?ab)))
     = Some (Some ''b'', None)"
    unfolding one two
    by (simp_all add: endResponse_def withParam_def assignParam_def ensureParams_def exampleContext_def exampleRequest_def)
  show ?thesis
    using i1 dyn before A' other A2' i2 none bucket rejected accepted chain B' index fn1 fn2 path C'
    by (intro conjI)
qed

text \<open>
  Claim C2 as stated has the request for \<^verbatim>\<open>/a/b\<close> matched by \<^verbatim>\<open>/a/:x\<close>. On the example
  router, where \<^verbatim>\<open>/a/:x\<close> (handler 1) is registered before \<^verbatim>\<open>/a/b\<close> (handler 2), handler 2
  runs and no parameter is captured.
\<close>

theorem dynamic_first_counterexample:
  "app (dispatch namedKeyRegExp ''v'' exampleIndex exampleRouter (exampleContext ''/a/b'')) = [2] \<and>
   request_params (request (dispatch namedKeyRegExp ''v'' exampleIndex exampleRouter (exampleContext ''/a/b''))) = None"
proof -
  let ?c = "exampleContext ''/a/b''"
  have path: "requestPath ?c = ''/a/b''"
    by (simp add: requestPath_def exampleContext_def exampleRequest_def normalizeURL_def)
  have query: "attachQuery ?c = ?c"
    by (simp add: attachQuery_def exampleContext_def exampleRequest_def)
  have verb: "methodIndex exampleIndex (request_method (request ?c)) = Some 1"
    by (simp add: methodIndex_def exampleContext_def exampleRequest_def exampleIndex_def)
  have run: "runChain [answer 2] ?c = Normal () (endResponse (?c\<lparr>app := [2]\<rparr>))"
    by (simp add: answer_def exampleContext_def)
  have "tryBlock namedKeyRegExp ''v'' exampleIndex exampleRouter 1 ''/a/b'' True ?c
      = Return (endResponse (?c\<lparr>app := [2]\<rparr>))"
  proof -
    have i: "(1::nat) < length exampleRouter" by (simp add: exampleRouter_eq)
    have h: "map_of (staticRouteMap (exampleRouter ! 1)) ''/a/b'' = Some [answer 2]"
      by (simp add: exampleRouter_eq)
    show ?thesis
      by (simp only: tryBlock_static [OF i h] example_middlewares run completion.case)
  qed
  then have "dispatch namedKeyRegExp ''v'' exampleIndex exampleRouter ?c = endResponse (?c\<lparr>app := [2]\<rparr>)"
    by (simp add: dispatch_def verb processHTTPMethod_def path query)
  then show ?thesis
    by (simp add: endResponse_def exampleContext_def exampleRequest_def)
qed

subsection \<open>A static pattern registered with a trailing slash\<close>

lemma about_router:
  "stateOf (get exampleIndex ''/about/'' [answer 1] (newRouter 6))
     = [emptyRouteMap, \<lparr>namedRoutePartitionMap = [], staticRouteMap = [(''/about/'', [answer 1])]\<rparr>,
        emptyRouteMap, emptyRouteMap, emptyRouteMap, emptyRouteMap]"
  by (simp add: get_def registerMethod_def buildRequestMap_def newRouter_def exampleIndex_def
      emptyRouteMap_def regexCheckStaticURL_def segmentChar_def wordChar_def eval_nat_numeral Let_def)

lemma about_request:
  "requestPath (exampleContext ''/about/'') = ''/about''"
  "requestPath (exampleContext ''/about'') = ''/about''"
  "attachQuery (exampleContext ''/about/'') = exampleContext ''/about/''"
  "attachQuery (exampleContext ''/about'') = exampleContext ''/about''"
  "methodIndex exampleIndex (request_method (request (exampleContext u))) = Some 1"
  by (simp_all add: requestPath_def attachQuery_def exampleContext_def exampleRequest_def normalizeURL_def
      methodIndex_def exampleIndex_def)

text \<open>
  Claim C4 fails on the code. \<^verbatim>\<open>buildRequestMap\<close> stores a static pattern under the string
  it was given: registering \<^verbatim>\<open>/about/\<close> creates the key \<^verbatim>\<open>/about/\<close>. \<^verbatim>\<open>processHTTPMethod\<close>
  removes the trailing slash of the URL before the lookup, so neither \<^verbatim>\<open>/about/\<close> nor
  \<^verbatim>\<open>/about\<close> finds the key: both requests go on to the partition lookup and are answered
  with the not-found response, and the registered handler never runs.
\<close>

theorem static_trailing_slash_not_served:
  "staticRouteMap (stateOf (get exampleIndex ''/about/'' [answer 1] (newRouter 6)) ! 1)
     = [(''/about/'', [answer 1])] \<and>
   dispatch namedKeyRegExp ''v'' exampleIndex (stateOf (get exampleIndex ''/about/'' [answer 1] (newRouter 6)))
       (exampleContext ''/about/'')
     = (exampleContext ''/about/'')\<lparr>response := notFoundCalls ''v''\<rparr> \<and>
   dispatch namedKeyRegExp ''v'' exampleIndex (stateOf (get exampleIndex ''/about/'' [answer 1] (newRouter 6)))
       (exampleContext ''/about'')
     = (exampleContext ''/about'')\<lparr>response := notFoundCalls ''v''\<rparr>"
proof -
  have t: "tryBlock namedKeyRegExp ''v'' exampleIndex
        [emptyRouteMap, \<lparr>namedRoutePartitionMap = [], staticRouteMap = [(''/about/'', [answer 1])]\<rparr>,
         emptyRouteMap, emptyRouteMap, emptyRouteMap, emptyRouteMap] 1 ''/about'' True c
      = Return (routeNotFound ''v'' c)" for c :: "nat list ApplicationContext"
    by (simp add: tryBlock_def)
  have n: "routeNotFound ''v'' (exampleContext u) = (exampleContext u)\<lparr>response := notFoundCalls ''v''\<rparr>" for u
    by (simp add: routeNotFound_def notFoundCalls_def exampleContext_def)
  have s: "staticRouteMap ([emptyRouteMap, \<lparr>namedRoutePartitionMap = [], staticRouteMap = [(''/about/'', [answer 1])]\<rparr>,
         emptyRouteMap, emptyRouteMap, emptyRouteMap, emptyRouteMap] ! 1) = [(''/about/'', [answer 1 :: nat list HandlerFunction])]"
    by simp
  show ?thesis
    unfolding about_router
    by (simp only: s dispatch_def about_request option.case processHTTPMethod_def t flow.case n simp_thms)
qed

subsection \<open>Parameters written by a failed positional match\<close>

lemma assignParam_other: "k \<noteq> name \<Longrightarrow> assignParam k v b name = b name"
  by (simp add: assignParam_def)

lemma assignParam_same: "name \<noteq> ''__proto__'' \<Longrightarrow> assignParam name v b name = v"
  by (simp add: assignParam_def)

lemma assignParam_proto: "assignParam k v b ''__proto__'' = b ''__proto__''"
  by (simp add: assignParam_def)

lemma positionalOk_mismatch:
  assumes "j < n" and "names ! j \<noteq> keyNames ! j" and "\<not> startsWithColon (keyNames ! j)"
  shows "\<not> positionalOk names keyNames n"
  using assms by (auto simp add: positionalOk_iff)

lemma positionalBag_frame:
  assumes "j < n" and "names ! j \<noteq> keyNames ! j" and "\<not> startsWithColon (keyNames ! j)"
      and "\<forall>k. j < k \<and> k < n \<longrightarrow> keyNames ! k \<noteq> CHR '':'' # name"
  shows "positionalBag names keyNames n b name = b name"
  using assms
proof (induction n arbitrary: b)
  case 0
  then show ?case by simp
next
  case (Suc m)
  show ?case
  proof (cases "m = j")
    case True
    with Suc.prems show ?thesis by simp
  next
    case False
    with Suc.prems have jm: "j < m" by simp
    have rest: "\<forall>k. j < k \<and> k < m \<longrightarrow> keyNames ! k \<noteq> CHR '':'' # name"
      using Suc.prems(4) by simp
    have here: "keyNames ! m \<noteq> CHR '':'' # name" using Suc.prems(4) jm by simp
    have other: "drop 1 (keyNames ! m) \<noteq> name" if "startsWithColon (keyNames ! m)"
      using that here by (cases "keyNames ! m") (auto simp add: startsWithColon_def)
    have IH: "positionalBag names keyNames m b' name = b' name" for b'
      using jm Suc.prems(2,3) rest by (rule Suc.IH)
    show ?thesis
    proof (cases "startsWithColon (keyNames ! m)")
      case True
      then have "positionalBag names keyNames (Suc m) b name
          = positionalBag names keyNames m (assignParam (drop 1 (keyNames ! m)) (Some (names ! m)) b) name"
        by simp
      also have "\<dots> = (assignParam (drop 1 (keyNames ! m)) (Some (names ! m)) b) name"
        by (rule IH)
      also have "\<dots> = b name"
        using other [OF True] by (rule assignParam_other)
      finally show ?thesis .
    next
      case False
      then show ?thesis using IH by simp
    qed
  qed
qed

lemma positionalBag_capture:
  assumes "j < i" and "i < n"
      and "names ! j \<noteq> keyNames ! j" and "\<not> startsWithColon (keyNames ! j)"
      and "\<forall>k. j < k \<and> k < n \<longrightarrow> startsWithColon (keyNames ! k) \<or> names ! k = keyNames ! k"
      and "keyNames ! i = CHR '':'' # name"
      and "\<forall>k. j < k \<and> k < i \<longrightarrow> keyNames ! k \<noteq> CHR '':'' # name"
      and "name \<noteq> ''__proto__''"
  shows "positionalBag names keyNames n b name = Some (names ! i)"
  using assms
proof (induction n arbitrary: b)
  case 0
  then show ?case by simp
next
  case (Suc m)
  have ok: "startsWithColon (keyNames ! m) \<or> names ! m = keyNames ! m"
    using Suc.prems by simp
  show ?case
  proof (cases "m = i")
    case True
    have "positionalBag names keyNames i (assignParam name (Some (names ! i)) b) name
        = (assignParam name (Some (names ! i)) b) name"
      using Suc.prems by (intro positionalBag_frame [where j = j]) simp_all
    with True Suc.prems show ?thesis by (simp add: startsWithColon_def assignParam_same)
  next
    case False
    with Suc.prems have im: "i < m" by simp
    have "positionalBag names keyNames m b' name = Some (names ! i)" for b'
      using Suc.prems im by (intro Suc.IH) simp_all
    with ok show ?thesis by auto
  qed
qed

lemma positionalBag_other:
  "\<forall>k<n. startsWithColon (keyNames ! k) \<longrightarrow> drop 1 (keyNames ! k) \<noteq> name \<Longrightarrow>
   positionalBag names keyNames n b name = b name"
proof (induction n arbitrary: b)
  case 0
  then show ?case by simp
next
  case (Suc n)
  have IH: "positionalBag names keyNames n b' name = b' name" for b'
    using Suc.prems by (intro Suc.IH) simp
  have "drop 1 (keyNames ! n) \<noteq> name" if "startsWithColon (keyNames ! n)"
    using that Suc.prems by simp
  then show ?case
    by (cases "startsWithColon (keyNames ! n)") (simp_all add: IH assignParam_other)
qed

lemma positionalBag_proto:
  "positionalBag names keyNames n b ''__proto__'' = b ''__proto__''"
  by (induction n arbitrary: b) (simp_all add: assignParam_proto)

text \<open>
  Claim C9. Let a positional entry fail at the literal segment \<open>j\<close>, the segments to the
  right of \<open>j\<close> having passed (the scan goes from right to left), and let segment \<open>i\<close>
  to the right of \<open>j\<close> be the parameter \<open>name\<close> (the leftmost such segment). Then
  \<^verbatim>\<open>fastPathMatch\<close> returns false and leaves \<open>name\<close> bound to segment \<open>i\<close> of the URL in
  \<^verbatim>\<open>request.params\<close>; the scan of the bucket goes on from that request, which is also the
  one left when no entry matches; and when the next entry matches positionally without
  binding \<open>name\<close> itself, its handlers run on a request whose parameters still bind \<open>name\<close>.
  The parameter is any name but \<^verbatim>\<open>__proto__\<close>: the assignment of a string to that name
  of a plain object writes nothing, in a failed match as in a successful one, so the bag
  never gets such a property.
\<close>

theorem failed_match_keeps_captures:
  assumes bag: "request_params (request c) = Some b"
      and positional: "\<not> useRegex e"
      and len: "length (pathNames e) = length names"
      and j: "j < i" and i: "i < length names"
      and mismatch: "names ! j \<noteq> pathNames e ! j" "\<not> startsWithColon (pathNames e ! j)"
      and right: "\<forall>k. j < k \<and> k < length names \<longrightarrow>
                    startsWithColon (pathNames e ! k) \<or> names ! k = pathNames e ! k"
      and named: "pathNames e ! i = CHR '':'' # name"
      and first: "\<forall>k. j < k \<and> k < i \<longrightarrow> pathNames e ! k \<noteq> CHR '':'' # name"
      and proper: "name \<noteq> ''__proto__''"
  shows "\<exists>r' b'. fastPathMatch names (pathNames e) (request c) = Normal False r' \<and>
           request_params r' = Some b' \<and> b' name = Some (names ! i) \<and>
           b' ''__proto__'' = b ''__proto__'' \<and>
           scanBucket rx ix hm URL names (e # es) c = scanBucket rx ix hm URL names es (c\<lparr>request := r'\<rparr>) \<and>
           scanBucket rx ix hm URL names [e] c = Fall (c\<lparr>request := r'\<rparr>) \<and>
           (\<not> useRegex e2 \<and> positionalMatch names (pathNames e2) \<and> callbacks e2 \<noteq> [] \<and>
            name \<notin> set (map (drop 1) (filter startsWithColon (pathNames e2))) \<longrightarrow>
              (\<exists>c2 b2. request_params (request c2) = Some b2 \<and> b2 name = Some (names ! i) \<and>
                 response c2 = response c \<and> app c2 = app c \<and>
                 scanBucket rx ix hm URL names (e # e2 # es) c =
                   (case callTopLevelMiddlewares ix hm c2 of
                      Abrupt _ c' \<Rightarrow> Raise c'
                    | Normal _ c' \<Rightarrow>
                        (case runChain (callbacks e2) c' of
                           Abrupt _ c'' \<Rightarrow> Raise c''
                         | Normal _ c'' \<Rightarrow> Return c''))))"
proof -
  let ?n = "length names"
  let ?b' = "positionalBag names (pathNames e) ?n b"
  let ?r' = "(request c)\<lparr>request_params := Some ?b'\<rparr>"
  have ji: "j < ?n" using j i by simp
  have no: "\<not> positionalMatch names (pathNames e)"
    using positionalOk_mismatch [OF ji mismatch] by (simp add: positionalMatch_iff)
  have m: "fastPathMatch names (pathNames e) (request c) = Normal False ?r'"
    using no len by (simp add: fastPathMatch_eq [OF bag])
  have v: "?b' name = Some (names ! i)"
    using j i mismatch right named first proper by (rule positionalBag_capture)
  have p: "?b' ''__proto__'' = b ''__proto__''"
    by (rule positionalBag_proto)
  have step: "scanBucket rx ix hm URL names (e # es') c = scanBucket rx ix hm URL names es' (c\<lparr>request := ?r'\<rparr>)" for es'
    using positional m by (simp add: matchEntry_def)
  have next_entry: "\<exists>c2 b2. request_params (request c2) = Some b2 \<and> b2 name = Some (names ! i) \<and>
                 response c2 = response c \<and> app c2 = app c \<and>
                 scanBucket rx ix hm URL names (e # e2 # es) c =
                   (case callTopLevelMiddlewares ix hm c2 of
                      Abrupt _ c' \<Rightarrow> Raise c'
                    | Normal _ c' \<Rightarrow>
                        (case runChain (callbacks e2) c' of
                           Abrupt _ c'' \<Rightarrow> Raise c''
                         | Normal _ c'' \<Rightarrow> Return c''))"
    if e2: "\<not> useRegex e2" "positionalMatch names (pathNames e2)" "callbacks e2 \<noteq> []"
      and fresh: "name \<notin> set (map (drop 1) (filter startsWithColon (pathNames e2)))"
  proof -
    let ?b2 = "positionalBag names (pathNames e2) ?n ?b'"
    let ?c2 = "c\<lparr>request := ?r'\<lparr>request_params := Some ?b2\<rparr>\<rparr>"
    from e2(2) have len2: "length (pathNames e2) = ?n"
      by (simp add: positionalMatch_iff)
    have "\<forall>k<?n. startsWithColon (pathNames e2 ! k) \<longrightarrow> drop 1 (pathNames e2 ! k) \<noteq> name"
      using fresh len2 by (auto simp add: image_iff)
    then have "?b2 name = ?b' name" by (rule positionalBag_other)
    with v have v2: "?b2 name = Some (names ! i)" by simp
    have "fastPathMatch names (pathNames e2) ?r' = Normal True (?r'\<lparr>request_params := Some ?b2\<rparr>)"
      using e2(2) len2 by (simp add: fastPathMatch_eq [where b = ?b'])
    then have "scanBucket rx ix hm URL names (e2 # es) (c\<lparr>request := ?r'\<rparr>) =
                   (case callTopLevelMiddlewares ix hm ?c2 of
                      Abrupt _ c' \<Rightarrow> Raise c'
                    | Normal _ c' \<Rightarrow>
                        (case runChain (callbacks e2) c' of
                           Abrupt _ c'' \<Rightarrow> Raise c''
                         | Normal _ c'' \<Rightarrow> Return c''))"
      using e2(1,3) by (simp add: matchEntry_def cong: completion.case_cong)
    with step [of "e2 # es"] v2 show ?thesis
      by (intro exI [of _ ?c2] exI [of _ ?b2]) simp
  qed
  show ?thesis
    using m v p step [of es] step [of "[]"] next_entry
    by (intro exI [of _ ?r'] exI [of _ ?b']) simp
qed

theorem failed_match_keeps_captures_witness:
  "request_params (request (ensureParams (exampleContext ''/b/1''))) = Some (\<lambda>_. None) \<and>
   \<not> useRegex entryAX \<and> length (pathNames entryAX) = length [''b'', ''1''] \<and>
   [''b'', ''1''] ! 0 \<noteq> pathNames entryAX ! 0 \<and> \<not> startsWithColon (pathNames entryAX ! 0) \<and>
   pathNames entryAX ! 1 = CHR '':'' # ''x'' \<and> ''x'' \<noteq> ''__proto__'' \<and>
   \<not> useRegex entryBY \<and> positionalMatch [''b'', ''1''] (pathNames entryBY) \<and> callbacks entryBY \<noteq> [] \<and>
   ''x'' \<notin> set (map (drop 1) (filter startsWithColon (pathNames entryBY))) \<and>
   (\<exists>r' b'. fastPathMatch [''b'', ''1''] (pathNames entryAX) (request (ensureParams (exampleContext ''/b/1'')))
              = Normal False r' \<and>
            request_params r' = Some b' \<and> b' ''x'' = Some ''1'' \<and> b' ''__proto__'' = None \<and>
            scanBucket namedKeyRegExp exampleIndex [emptyRouteMap] ''/b/1'' [''b'', ''1''] [entryAX]
                (ensureParams (exampleContext ''/b/1''))
              = Fall ((ensureParams (exampleContext ''/b/1''))\<lparr>request := r'\<rparr>) \<and>
            (\<exists>c2 b2. request_params (request c2) = Some b2 \<and> b2 ''x'' = Some ''1'' \<and>
               scanBucket namedKeyRegExp exampleIndex [emptyRouteMap] ''/b/1'' [''b'', ''1''] [entryAX, entryBY]
                   (ensureParams (exampleContext ''/b/1''))
                 = Return (endResponse (c2\<lparr>app := [2]\<rparr>))))"
proof -
  let ?c = "ensureParams (exampleContext ''/b/1'')"
  let ?names = "[''b'', ''1'']"
  have bag: "request_params (request ?c) = Some (\<lambda>_. None)"
    by (simp add: ensureParams_def exampleContext_def exampleRequest_def)
  have positional: "\<not> useRegex entryAX" by (simp add: entryAX_def)
  have len: "length (pathNames entryAX) = length ?names" by (simp add: entryAX_def)
  have j: "(0::nat) < 1" and i: "1 < length ?names" by simp_all
  have mismatch: "?names ! 0 \<noteq> pathNames entryAX ! 0" "\<not> startsWithColon (pathNames entryAX ! 0)"
    by (simp_all add: entryAX_def startsWithColon_def)
  have right: "\<forall>k. 0 < k \<and> k < length ?names \<longrightarrow>
      startsWithColon (pathNames entryAX ! k) \<or> ?names ! k = pathNames entryAX ! k"
    by (auto simp add: entryAX_def startsWithColon_def less_Suc_eq)
  have named: "pathNames entryAX ! 1 = CHR '':'' # ''x''" by (simp add: entryAX_def)
  have first: "\<forall>k. 0 < k \<and> k < 1 \<longrightarrow> pathNames entryAX ! k \<noteq> CHR '':'' # ''x''" by simp
  have proper: "''x'' \<noteq> ''__proto__''" by simp
  have e2: "\<not> useRegex entryBY" "positionalMatch ?names (pathNames entryBY)" "callbacks entryBY \<noteq> []"
    "''x'' \<notin> set (map (drop 1) (filter startsWithColon (pathNames entryBY)))"
    by (simp_all add: entryBY_def positionalMatch_def startsWithColon_def)
  have mw: "callTopLevelMiddlewares exampleIndex [emptyRouteMap] c = Normal () c" for c :: "nat list ApplicationContext"
    by (simp add: callTopLevelMiddlewares_def exampleIndex_def emptyRouteMap_def)
  from failed_match_keeps_captures [OF bag positional len j i mismatch right named first proper,
      where rx = namedKeyRegExp and ix = exampleIndex and hm = "[emptyRouteMap]" and URL = "''/b/1''"
        and es = "[]" and ?e2.0 = entryBY]
  obtain r' b' where m: "fastPathMatch ?names (pathNames entryAX) (request ?c) = Normal False r'"
    and b': "request_params r' = Some b'" "b' ''x'' = Some (?names ! 1)" "b' ''__proto__'' = None"
    and alone: "scanBucket namedKeyRegExp exampleIndex [emptyRouteMap] ''/b/1'' ?names [entryAX] ?c
        = Fall (?c\<lparr>request := r'\<rparr>)"
    and both: "\<exists>c2 b2. request_params (request c2) = Some b2 \<and> b2 ''x'' = Some (?names ! 1) \<and>
                 response c2 = response ?c \<and> app c2 = app ?c \<and>
                 scanBucket namedKeyRegExp exampleIndex [emptyRouteMap] ''/b/1'' ?names [entryAX, entryBY] ?c =
                   (case callTopLevelMiddlewares exampleIndex [emptyRouteMap] c2 of
                      Abrupt _ c' \<Rightarrow> Raise c'
                    | Normal _ c' \<Rightarrow>
                        (case runChain (callbacks entryBY) c' of
                           Abrupt _ c'' \<Rightarrow> Raise c''
                         | Normal _ c'' \<Rightarrow> Return c''))"
    using e2 by blast
  from both obtain c2 b2 where c2: "request_params (request c2) = Some b2" "b2 ''x'' = Some (?names ! 1)"
    "app c2 = app ?c"
    and s: "scanBucket namedKeyRegExp exampleIndex [emptyRouteMap] ''/b/1'' ?names [entryAX, entryBY] ?c =
                        (case runChain (callbacks entryBY) c2 of
                           Abrupt _ c'' \<Rightarrow> Raise c''
                         | Normal _ c'' \<Rightarrow> Return c'')"
    by (auto simp add: mw)
  have "app c2 = []" using c2(3) by (simp add: ensureParams_def exampleContext_def)
  then have "runChain (callbacks entryBY) c2 = Normal () (endResponse (c2\<lparr>app := [2]\<rparr>))"
    by (simp add: entryBY_def answer_def)
  with s have s': "scanBucket namedKeyRegExp exampleIndex [emptyRouteMap] ''/b/1'' ?names [entryAX, entryBY] ?c
      = Return (endResponse (c2\<lparr>app := [2]\<rparr>))"
    by simp
  have inner: "\<exists>r' b'. fastPathMatch ?names (pathNames entryAX) (request ?c) = Normal False r' \<and>
            request_params r' = Some b' \<and> b' ''x'' = Some ''1'' \<and> b' ''__proto__'' = None \<and>
            scanBucket namedKeyRegExp exampleIndex [emptyRouteMap] ''/b/1'' ?names [entryAX] ?c
              = Fall (?c\<lparr>request := r'\<rparr>) \<and>
            (\<exists>c2 b2. request_params (request c2) = Some b2 \<and> b2 ''x'' = Some ''1'' \<and>
               scanBucket namedKeyRegExp exampleIndex [emptyRouteMap] ''/b/1'' ?names [entryAX, entryBY] ?c
                 = Return (endResponse (c2\<lparr>app := [2]\<rparr>)))"
    using m b' alone c2(1,2) s' by (intro exI [of _ r'] exI [of _ b'] conjI exI [of _ c2] exI [of _ b2]) simp_all
  show ?thesis
    using bag positional len mismatch named proper e2 inner by blast
qed

subsection \<open>Mounting a router without a prefix\<close>






lemma mergeStaticLoop_keys:
  "map fst (stateOf (mergeStaticLoop es t)) = map fst t"
proof (induction es t rule: mergeStaticLoop.induct)
  case (1 target)
  then show ?case by simp
next
  case (2 k v entries target)
  show ?case
  proof (cases "map_of target k")
    case None
    then show ?thesis by simp
  next
    case (Some chain)
    then have "k \<in> fst ` set target" by (auto dest: map_of_SomeD intro: rev_image_eqI)
    with 2 Some show ?thesis by (simp add: update_keys)
  qed
qed








lemma mergeStaticLoop_throws:
  assumes "k \<in> fst ` set es" and "k \<notin> fst ` set t"
  shows "\<exists>t'. mergeStaticLoop es t = Abrupt TypeError t'"
  using assms
proof (induction es t rule: mergeStaticLoop.induct)
  case (1 target)
  then show ?case by simp
next
  case (2 k' v entries target)
  show ?case
  proof (cases "map_of target k'")
    case None
    then show ?thesis by simp
  next
    case (Some chain)
    then have in_t: "k' \<in> fst ` set target"
      by (auto dest: map_of_SomeD intro: rev_image_eqI)
    with "2.prems" have k: "k \<in> fst ` set entries" by auto
    have "fst ` set (AList.update k' (chain @ v) target) = fst ` set target"
      using in_t by (metis list.set_map update_keys)
    with "2.prems"(2) have "k \<notin> fst ` set (AList.update k' (chain @ v) target)" by simp
    from "2.IH" [OF Some k this] Some show ?thesis by simp
  qed
qed

lemma mergeRouteMap_throws:
  assumes "staticRouteMap target \<noteq> []"
      and "k \<in> fst ` set (staticRouteMap source)" and "k \<notin> fst ` set (staticRouteMap target)"
  shows "\<exists>left. mergeRouteMap target source = Abrupt TypeError left \<and>
           map fst (staticRouteMap left) = map fst (staticRouteMap target)"
proof -
  from assms(2) have "k \<in> fst ` set (objectEntries (staticRouteMap source))" by simp
  from mergeStaticLoop_throws [OF this assms(3)] obtain t' where
    t': "mergeStaticLoop (objectEntries (staticRouteMap source)) (staticRouteMap target) = Abrupt TypeError t'"
    by blast
  from mergeStaticLoop_keys [of "objectEntries (staticRouteMap source)" "staticRouteMap target"] t'
  have "map fst t' = map fst (staticRouteMap target)" by simp
  with t' assms(1) show ?thesis by (simp add: mergeRouteMap_def)
qed

lemma mergeRouteMap_abrupt:
  "mergeRouteMap target source = Abrupt e left \<Longrightarrow> e = TypeError"
proof -
  have "mergeStaticLoop es t = Abrupt e t' \<Longrightarrow> e = TypeError" for es and t t' :: "(string \<times> 'a list) list"
    by (induction es t rule: mergeStaticLoop.induct) (auto split: option.splits)
  then show "mergeRouteMap target source = Abrupt e left \<Longrightarrow> e = TypeError"
    by (auto simp add: mergeRouteMap_def split: if_splits completion.splits)
qed

lemma mergeRouterMaps_throws:
  assumes "i < length source" and "i < length target"
      and "staticRouteMap (target ! i) \<noteq> []"
      and "k \<in> fst ` set (staticRouteMap (source ! i))"
      and "k \<notin> fst ` set (staticRouteMap (target ! i))"
  shows "\<exists>left. mergeRouterMaps target source = Abrupt TypeError left \<and> length left = length target \<and>
           k \<notin> fst ` set (staticRouteMap (left ! i))"
  using assms
proof (induction target source arbitrary: i rule: mergeRouterMaps.induct)
  case (1 target)
  then show ?case by simp
next
  case (2 s source)
  then show ?case by simp
next
  case (3 t target s source)
  show ?case
  proof (cases "mergeRouteMap t s")
    case (Abrupt e t')
    then have e: "e = TypeError" by (rule mergeRouteMap_abrupt)
    have "k \<notin> fst ` set (staticRouteMap ((t' # target) ! i))"
    proof (cases i)
      case 0
      with "3.prems" have "staticRouteMap t \<noteq> []" "k \<in> fst ` set (staticRouteMap s)"
        "k \<notin> fst ` set (staticRouteMap t)" by simp_all
      from mergeRouteMap_throws [OF this] Abrupt
      have "map fst (staticRouteMap t') = map fst (staticRouteMap t)" by auto
      then have "fst ` set (staticRouteMap t') = fst ` set (staticRouteMap t)"
        by (metis list.set_map)
      with 0 \<open>k \<notin> fst ` set (staticRouteMap t)\<close> show ?thesis by simp
    next
      case (Suc i')
      with "3.prems" show ?thesis by simp
    qed
    with Abrupt e show ?thesis by simp
  next
    case (Normal u t')
    show ?thesis
    proof (cases i)
      case 0
      with "3.prems" have "staticRouteMap t \<noteq> []" "k \<in> fst ` set (staticRouteMap s)"
        "k \<notin> fst ` set (staticRouteMap t)" by simp_all
      from mergeRouteMap_throws [OF this] Normal show ?thesis by auto
    next
      case (Suc i')
      with "3.prems" have "i' < length source" "i' < length target"
        "staticRouteMap (target ! i') \<noteq> []" "k \<in> fst ` set (staticRouteMap (source ! i'))"
        "k \<notin> fst ` set (staticRouteMap (target ! i'))" by simp_all
      from "3.IH" [OF Normal this] obtain left where
        "mergeRouterMaps target source = Abrupt TypeError left" "length left = length target"
        "k \<notin> fst ` set (staticRouteMap (left ! i'))" by blast
      with Normal Suc show ?thesis by simp
    qed
  qed
qed

lemma objectEntries_paths [simp]:
  "objectEntries [(''/a'', v)] = [(''/a'', v)]"
  "objectEntries [(''/'', v)] = [(''/'', v)]"
  "objectEntries [(''/b'', v), (''/a'', w)] = [(''/b'', v), (''/a'', w)]"
  "objectEntries [(''/c'', v), (''/a'', w)] = [(''/c'', v), (''/a'', w)]"
  "objectEntries [] = []"
  by (simp_all add: objectEntries_def isArrayIndex_def isDigit_def)




text \<open>
  Claim C10. When, for some index, the static map of the target is not empty and the
  source has a static key \<open>k\<close> that the target lacks, \<^verbatim>\<open>use(router)\<close> throws a TypeError,
  and the router it leaves behind has no key \<open>k\<close> at that index.
\<close>

theorem mount_fails_on_source_only_static_key:
  assumes "i < length source" and "i < length target"
      and "staticRouteMap (target ! i) \<noteq> []"
      and "k \<in> fst ` set (staticRouteMap (source ! i))"
      and "k \<notin> fst ` set (staticRouteMap (target ! i))"
  shows "\<exists>left. use pathJoin ix (UseRouter source) target = Abrupt TypeError left \<and>
           length left = length target \<and> k \<notin> fst ` set (staticRouteMap (left ! i))"
  using mergeRouterMaps_throws [OF assms] by simp


theorem mount_fails_on_source_only_static_key_witness:
  "(1::nat) < length mountSourceOnly \<and> (1::nat) < length mountTarget \<and>
   staticRouteMap (mountTarget ! 1) \<noteq> [] \<and>
   ''/b'' \<in> fst ` set (staticRouteMap (mountSourceOnly ! 1)) \<and>
   ''/b'' \<notin> fst ` set (staticRouteMap (mountTarget ! 1)) \<and>
   (\<exists>left. use (\<lambda>a b. a @ b) exampleIndex (UseRouter mountSourceOnly) mountTarget = Abrupt TypeError left \<and>
      length left = length mountTarget \<and> ''/b'' \<notin> fst ` set (staticRouteMap (left ! 1))) \<and>
   use (\<lambda>a b. a @ b) exampleIndex (UseRouter mountSourceOnly) mountTarget = Abrupt TypeError mountTarget"
proof -
  have i: "(1::nat) < length mountSourceOnly" "(1::nat) < length mountTarget"
    by (simp_all add: mountSourceOnly_def mountTarget_def)
  have ne: "staticRouteMap (mountTarget ! 1) \<noteq> []"
    by (simp add: mountTarget_def)
  have k: "''/b'' \<in> fst ` set (staticRouteMap (mountSourceOnly ! 1))"
    "''/b'' \<notin> fst ` set (staticRouteMap (mountTarget ! 1))"
    by (simp_all add: mountSourceOnly_def mountTarget_def)
  note inst = mount_fails_on_source_only_static_key [OF i ne k, where pathJoin = "\<lambda>a b. a @ b" and ix = exampleIndex]
  have computed: "use (\<lambda>a b. a @ b) exampleIndex (UseRouter mountSourceOnly) mountTarget = Abrupt TypeError mountTarget"
    by (simp add: mountSourceOnly_def mountTarget_def mergeRouteMap_def mergeNamed_def emptyRouteMap_def
        objectAssign_def bucketEntries_def)
  show ?thesis
    using i ne k inst computed by blast
qed

subsection \<open>Positional matching and matching by the compiled key\<close>

text \<open>The key and the parameter names that \<^verbatim>\<open>createNamedRouteSearchKey\<close> computes.\<close>

lemma searchKeyLoop_eq:
  "searchKeyLoop tokens (ps, k) =
     (ps @ map (drop 1) (filter startsWithColon tokens), k @ keyText tokens)"
  by (induction tokens arbitrary: ps k) (simp_all add: keyText_def)

lemma createNamedRouteSearchKey_eq:
  "createNamedRouteSearchKey ([] # segs) = (map (drop 1) (filter startsWithColon segs), keyText segs)"
  by (simp add: createNamedRouteSearchKey_def searchKeyLoop_eq keyText_def startsWithColon_def)

text \<open>Splitting at a separator.\<close>

lemma split_nonempty [simp]: "split c xs \<noteq> []"
  by (induction xs) (auto split: list.splits)

lemma split_Cons_sep [simp]: "split c (c # xs) = [] # split c xs"
  by simp

lemma concat_split: "concat (map (\<lambda>s. c # s) (split c xs)) = c # xs"
  by (induction xs) (auto split: list.splits)

lemma split_no_sep: "s \<in> set (split c xs) \<Longrightarrow> c \<notin> set s"
  by (induction xs arbitrary: s) (auto split: list.splits if_splits)

lemma split_chars: "s \<in> set (split c xs) \<Longrightarrow> set s \<subseteq> set xs"
proof (induction xs arbitrary: s)
  case Nil
  then show ?case by simp
next
  case (Cons x xs)
  obtain y ys where y: "split c xs = y # ys"
    by (cases "split c xs") simp_all
  have "set y \<subseteq> set xs" and "\<forall>z \<in> set ys. set z \<subseteq> set xs"
    using Cons.IH y by auto
  with Cons.prems y show ?case
    by (auto split: if_splits)
qed


text \<open>The key is parsed back into the atoms of its segments.\<close>

lemma namedChar_atom:
  assumes "namedChar c"
  shows "parseKey (c # cs) = map_option (Cons (atomOf c)) (parseKey cs)"
  using assms
  by (auto simp add: namedChar_def segmentChar_def atomOf_def wordChar_def Let_def)

lemma parseKey_group:
  "parseKey (captureGroup @ rest) = map_option (Cons Group) (parseKey rest)"
  by (simp add: captureGroup_def)

lemma parseKey_slash:
  "parseKey (CHR ''/'' # rest) = map_option (Cons (Lit (CHR ''/''))) (parseKey rest)"
  by simp

declare parseKey.simps(2) [simp del]

lemma parseKey_literal:
  "list_all namedChar t \<Longrightarrow> parseKey (t @ rest) = map_option ((@) (map atomOf t)) (parseKey rest)"
proof (induction t)
  case Nil
  show ?case by (simp add: option.map_ident)
next
  case (Cons c t)
  then show ?case
    by (simp add: namedChar_atom option.map_comp comp_def)
qed

lemma parseKey_keyText:
  "\<forall>t \<in> set segs. list_all namedChar t \<Longrightarrow> parseKey (keyText segs) = Some (keyAtoms segs)"
proof (induction segs)
  case Nil
  show ?case by (simp add: keyText_def keyAtoms_def)
next
  case (Cons t segs)
  then have IH: "parseKey (keyText segs) = Some (keyAtoms segs)" and t: "list_all namedChar t"
    by simp_all
  have shape: "keyText (t # segs) = CHR ''/'' # (if startsWithColon t then captureGroup else t) @ keyText segs"
    by (simp add: keyText_def)
  have atoms: "keyAtoms (t # segs) = Lit (CHR ''/'') # segmentAtoms t @ keyAtoms segs"
    by (simp add: keyAtoms_def)
  show ?case
    unfolding shape atoms parseKey_slash
    by (simp add: parseKey_group parseKey_literal [OF t] IH segmentAtoms_def)
qed


text \<open>The atoms of the key match the URL at its start.\<close>

lemma segmentChar_not_line: "segmentChar c \<Longrightarrow> \<not> lineTerminator c"
  by (auto simp add: segmentChar_def wordChar_def lineTerminator_def Let_def)

lemma matchAtoms_literal:
  "list_all segmentChar t \<Longrightarrow> matchAtoms (map atomOf t @ atoms) (t @ rest) = matchAtoms atoms rest"
  by (induction t) (auto simp add: atomOf_def segmentChar_not_line)

lemma takeWhile_segment:
  assumes "list_all segmentChar n" and "rest = [] \<or> hd rest = CHR ''/''"
  shows "takeWhile segmentChar (n @ rest) = n"
proof -
  have "\<not> segmentChar (CHR ''/'')" by (simp add: segmentChar_def wordChar_def)
  with assms(2) have "takeWhile segmentChar rest = []"
    by (cases rest) auto
  with assms(1) show ?thesis
    by (simp add: takeWhile_append2 list_all_iff)
qed

lemma matchAtoms_group:
  assumes "list_all segmentChar n" and "n \<noteq> []" and "rest = [] \<or> hd rest = CHR ''/''"
      and "matchAtoms atoms rest = Some groups"
  shows "matchAtoms (Group # atoms) (n @ rest) = Some (n # groups)"
proof -
  from assms(2) obtain m where m: "length n = Suc m" by (cases n) simp_all
  show ?thesis
    using assms(4) by (simp add: takeWhile_segment [OF assms(1,3)] m [symmetric] del: firstSome.simps)
      (simp add: m)
qed

lemma urlText_start: "urlText names = [] \<or> hd (urlText names) = CHR ''/''"
  by (cases names) (simp_all add: urlText_def)

lemma urlText_Cons: "urlText (n # names) = CHR ''/'' # n @ urlText names"
  by (simp add: urlText_def)

lemma keyAtoms_Cons: "keyAtoms (k # segs) = Lit (CHR ''/'') # segmentAtoms k @ keyAtoms segs"
  by (simp add: keyAtoms_def)

lemma capturePairs_Cons:
  "capturePairs (n # names) (k # segs) =
     (if startsWithColon k then (drop 1 k, n) # capturePairs names segs else capturePairs names segs)"
  by (simp add: capturePairs_def)

lemma matchAtoms_key:
  assumes "list_all2 (\<lambda>n k. startsWithColon k \<or> n = k) names segs"
      and "\<forall>n \<in> set names. n \<noteq> [] \<and> list_all segmentChar n"
  shows "matchAtoms (keyAtoms segs) (urlText names) = Some (map snd (capturePairs names segs))"
  using assms
proof (induction names segs rule: list_all2_induct)
  case Nil
  show ?case by (simp add: keyAtoms_def urlText_def capturePairs_def)
next
  case (Cons n names k segs)
  then have IH: "matchAtoms (keyAtoms segs) (urlText names) = Some (map snd (capturePairs names segs))"
    and n: "n \<noteq> []" "list_all segmentChar n"
    by simp_all
  show ?case
  proof (cases "startsWithColon k")
    case True
    from matchAtoms_group [OF n(2,1) urlText_start IH] True show ?thesis
      by (simp add: urlText_Cons keyAtoms_Cons capturePairs_Cons segmentAtoms_def)
  next
    case False
    with Cons.hyps have "n = k" by simp
    with False IH n show ?thesis
      by (simp add: urlText_Cons keyAtoms_Cons capturePairs_Cons segmentAtoms_def matchAtoms_literal)
  qed
qed

lemma searchAtoms_start: "matchAtoms atoms s = Some groups \<Longrightarrow> searchAtoms atoms s = Some groups"
  by (cases s) simp_all

text \<open>The bags written by the two loops, as folds over the bound parameters.\<close>

lemma writeParam_pair [simp]: "writeParam b (p, v) = assignParam p (Some v) b"
  by (simp add: writeParam_def)

lemma foldl_update_map_of:
  "foldl writeParam b pvs = b ++ map_of (rev (filter (\<lambda>pv. fst pv \<noteq> ''__proto__'') pvs))"
proof (induction pvs arbitrary: b)
  case Nil
  show ?case by simp
next
  case (Cons pv pvs)
  have kept: "writeParam b pv ++ m = b ++ (map_of [pv] ++ m)" if "fst pv \<noteq> ''__proto__''" for m
    using that by (cases pv) (auto simp add: assignParam_def map_add_def fun_eq_iff split: option.splits)
  have ignored: "writeParam b pv = b" if "fst pv = ''__proto__''"
    using that by (simp add: writeParam_def assignParam_def)
  show ?case
    by (cases "fst pv = ''__proto__''") (simp_all add: Cons.IH kept ignored)
qed

lemma foldl_update_rev:
  assumes "distinct (map fst pvs)"
  shows "foldl writeParam b (rev pvs) = foldl writeParam b pvs"
proof -
  let ?kept = "filter (\<lambda>pv. fst pv \<noteq> ''__proto__'') pvs"
  from assms have "distinct (map fst ?kept)"
    by (simp add: distinct_map_filter)
  then have "map_of (rev ?kept) = map_of ?kept"
    by (simp add: map_of_inject_set rev_map [symmetric])
  then show ?thesis by (simp add: foldl_update_map_of rev_filter [symmetric])
qed

lemma capturePairs_snoc:
  assumes "i < length names" and "i < length segs"
  shows "capturePairs (take (Suc i) names) (take (Suc i) segs) =
           capturePairs (take i names) (take i segs) @
             (if startsWithColon (segs ! i) then [(drop 1 (segs ! i), names ! i)] else [])"
  using assms by (simp add: capturePairs_def take_Suc_conv_app_nth zip_append)

lemma positionalBag_pairs:
  assumes "n \<le> length names" and "n \<le> length segs" and "positionalOk names segs n"
  shows "positionalBag names segs n b =
           foldl writeParam b (rev (capturePairs (take n names) (take n segs)))"
  using assms
proof (induction n arbitrary: b)
  case 0
  show ?case by (simp add: capturePairs_def)
next
  case (Suc i)
  then have i: "i < length names" "i < length segs" and ok: "positionalOk names segs i"
    and here: "startsWithColon (segs ! i) \<or> names ! i = segs ! i"
    by (auto split: if_splits)
  have IH: "positionalBag names segs i b' =
           foldl writeParam b' (rev (capturePairs (take i names) (take i segs)))" for b'
    using i ok by (intro Suc.IH) simp_all
  show ?case
    using here by (auto simp add: capturePairs_snoc [OF i] IH)
qed

lemma regexBag_pairs:
  assumes "length ps = length vs"
  shows "regexBag ps (length pre) (map Some (pre @ vs)) b = foldl writeParam b (zip ps vs)"
  using assms
proof (induction ps arbitrary: vs pre b)
  case Nil
  then show ?case by simp
next
  case (Cons p ps)
  then obtain v vs' where vs: "vs = v # vs'" and len: "length ps = length vs'"
    by (cases vs) simp_all
  have "(map Some (pre @ vs)) ! length pre = Some v"
    by (simp add: vs nth_append)
  then have "regexBag (p # ps) (length pre) (map Some (pre @ vs)) b
      = regexBag ps (length (pre @ [v])) (map Some ((pre @ [v]) @ vs')) (assignParam p (Some v) b)"
    by (simp add: vs)
  also have "\<dots> = foldl writeParam (assignParam p (Some v) b) (zip ps vs')"
    using len by (rule Cons.IH)
  finally show ?case
    by (simp add: vs)
qed

lemma capturePairs_zip:
  "length names = length segs \<Longrightarrow>
   capturePairs names segs = zip (map (drop 1) (filter startsWithColon segs)) (map snd (capturePairs names segs))"
  by (induction names segs rule: list_induct2) (simp_all add: capturePairs_def)

lemma capturePairs_length:
  "length names = length segs \<Longrightarrow>
   length (map snd (capturePairs names segs)) = length (map (drop 1) (filter startsWithColon segs))"
  by (induction names segs rule: list_induct2) (simp_all add: capturePairs_def)

lemma capturePairs_keys:
  "length names = length segs \<Longrightarrow>
   map fst (capturePairs names segs) = map (drop 1) (filter startsWithColon segs)"
  by (induction names segs rule: list_induct2) (simp_all add: capturePairs_def)


lemma keyText_nonempty: "segs \<noteq> [] \<Longrightarrow> keyText segs \<noteq> []"
  by (cases segs) (simp_all add: keyText_def)

lemma namedKeyRegExp_compiles: "compilesNamedKeys namedKeyRegExp"
  by (simp add: compilesNamedKeys_def namedKeyRegExp_def)

lemma regexEntry_examples:
  "key (regexEntry ''/user/:id'') \<noteq> []"
  "params (regexEntry ''/user/:id'') = [''id'']"
  "pathNames (regexEntry ''/user/:id'') = [''user'', '':id'']"
  "key (regexEntry ''/:a/:a'') \<noteq> []"
  "params (regexEntry ''/:a/:a'') = [''a'', ''a'']"
  "pathNames (regexEntry ''/:a/:a'') = ['':a'', '':a'']"
  by code_simp+

lemma example_exec:
  "namedKeyRegExp (key (regexEntry ''/:a/:a'')) ''/x/y'' = RegexMatch [Some ''x'', Some ''y'']"
  "namedKeyRegExp (key (regexEntry ''/user/:id'')) ''/user/a@b'' = RegexMatch [Some ''a'']"
  by code_simp+

lemma example_names:
  "drop 1 (split (CHR ''/'') ''/user/42'') = [''user'', ''42'']"
  "drop 1 (split (CHR ''/'') ''/x/y'') = [''x'', ''y'']"
  "drop 1 (split (CHR ''/'') ''/user/a@b'') = [''user'', ''a@b'']"
  by simp_all

text \<open>
  Claim C5, as the code has it. Take a pattern over \<^verbatim>\<open>[:~\w/.-]\<close> that begins with a slash
  and whose parameter names are pairwise distinct, the entry built from it, and a URL
  that begins with a slash and whose segments are non-empty strings over \<^verbatim>\<open>[\w-.~]\<close>.
  When \<^verbatim>\<open>fastPathMatch\<close> accepts the URL, \<^verbatim>\<open>attachPathParamsToRequestIfExists\<close> with the
  compiled key accepts it too and leaves the same request, hence the same parameter bag.
  The regular-expression engine is any engine that evaluates the compiled keys as
  \<open>namedKeyExec\<close> does.
\<close>

theorem positional_and_regex_agree:
  assumes pattern: "regexCheckNamedPath uri" "hd uri = CHR ''/''"
      and entry: "key e = snd (createNamedRouteSearchKey (split (CHR ''/'') uri))"
                 "params e = fst (createNamedRouteSearchKey (split (CHR ''/'') uri))"
                 "pathNames e = drop 1 (split (CHR ''/'') uri)"
      and distinct_names: "distinct (params e)"
      and url: "URL \<noteq> []" "hd URL = CHR ''/''"
               "\<forall>s \<in> set (drop 1 (split (CHR ''/'') URL)). s \<noteq> [] \<and> list_all segmentChar s"
      and engine: "compilesNamedKeys rx"
      and bag: "request_params r = Some b"
      and positional: "fastPathMatch (drop 1 (split (CHR ''/'') URL)) (pathNames e) r = Normal True r'"
  shows "attachPathParamsToRequestIfExists rx URL e r = Normal True r'"
proof -
  from pattern obtain rest where uri: "uri = CHR ''/'' # rest"
    by (cases uri) (simp_all add: regexCheckNamedPath_def)
  from url(1,2) obtain urest where URL: "URL = CHR ''/'' # urest"
    by (cases URL) simp_all
  define segs where "segs = split (CHR ''/'') rest"
  define names where "names = split (CHR ''/'') urest"
  let ?pairs = "capturePairs names segs"
  have tokens: "split (CHR ''/'') uri = [] # segs" and n: "drop 1 (split (CHR ''/'') URL) = names"
    by (simp_all add: uri URL segs_def names_def)
  have k: "key e = keyText segs" and ps: "params e = map (drop 1) (filter startsWithColon segs)"
    and pn: "pathNames e = segs"
    using entry by (simp_all add: tokens createNamedRouteSearchKey_eq)
  have flat: "URL = urlText names"
    by (simp add: URL names_def urlText_def concat_split)
  from positional have "fastPathMatch names segs r = Normal True r'"
    by (simp only: n pn)
  then have pm: "positionalMatch names segs"
    and r': "r' = r\<lparr>request_params := Some (positionalBag names segs (length names) b)\<rparr>"
    by (auto simp add: fastPathMatch_eq [OF bag] positionalMatch_iff)
  from pm have len: "length names = length segs" and ok: "positionalOk names segs (length names)"
    by (simp_all add: positionalMatch_iff)
  have "\<forall>t \<in> set segs. list_all namedChar t"
  proof
    fix t assume t: "t \<in> set segs"
    from split_chars [of t "CHR ''/''" rest] split_no_sep [of t "CHR ''/''" rest] t
    have "set t \<subseteq> set rest" and "CHR ''/'' \<notin> set t" by (simp_all add: segs_def)
    with pattern(1) show "list_all namedChar t"
      by (auto simp add: regexCheckNamedPath_def uri list_all_iff namedChar_def)
  qed
  then have parsed: "parseKey (key e) = Some (keyAtoms segs)"
    by (simp add: k parseKey_keyText)
  have "matchAtoms (keyAtoms segs) URL = Some (map snd ?pairs)"
    using pm url(3) unfolding flat [symmetric] n positionalMatch_def by (simp add: matchAtoms_key flat)
  then have "searchAtoms (keyAtoms segs) URL = Some (map snd ?pairs)"
    by (rule searchAtoms_start)
  with parsed have "namedKeyExec (key e) URL = Some (RegexMatch (map Some (map snd ?pairs)))"
    by (simp add: namedKeyExec_def)
  with engine have exec: "rx (key e) URL = RegexMatch (map Some (map snd ?pairs))"
    by (simp add: compilesNamedKeys_def)
  have nonempty: "key e \<noteq> []"
    by (simp add: k keyText_nonempty segs_def)
  have "regexBag (params e) 0 (map Some (map snd ?pairs)) b = foldl writeParam b (zip (params e) (map snd ?pairs))"
    using regexBag_pairs [of "params e" "map snd ?pairs" "[]" b] capturePairs_length [OF len]
    by (simp add: ps)
  also have "zip (params e) (map snd ?pairs) = ?pairs"
    using capturePairs_zip [OF len] by (simp add: ps)
  also have "foldl writeParam b ?pairs = foldl writeParam b (rev ?pairs)"
    using distinct_names by (simp add: foldl_update_rev capturePairs_keys [OF len] ps)
  also have "\<dots> = positionalBag names segs (length names) b"
    using positionalBag_pairs [of "length names" names segs b] len ok by simp
  finally have bags: "regexBag (params e) 0 (map Some (map snd ?pairs)) b
      = positionalBag names segs (length names) b" .
  have "attachLoop (params e) 0 (map Some (map snd ?pairs)) r = Normal () r'"
    unfolding attachLoop_eq [OF bag] bags r' ..
  with nonempty show ?thesis
    by (simp only: attachPathParamsToRequestIfExists_def exec if_False regexResult.case completion.case)
qed


theorem positional_and_regex_agree_witness:
  "regexCheckNamedPath ''/user/:id'' \<and> hd ''/user/:id'' = CHR ''/'' \<and>
   distinct (params (regexEntry ''/user/:id'')) \<and>
   ''/user/42'' \<noteq> [] \<and> hd ''/user/42'' = CHR ''/'' \<and>
   compilesNamedKeys namedKeyRegExp \<and>
   request_params (emptyBagRequest ''/user/42'') = Some (\<lambda>_. None) \<and>
   fastPathMatch (drop 1 (split (CHR ''/'') ''/user/42'')) (pathNames (regexEntry ''/user/:id''))
       (emptyBagRequest ''/user/42'')
     = Normal True ((emptyBagRequest ''/user/42'')\<lparr>request_params := Some [''id'' \<mapsto> ''42'']\<rparr>) \<and>
   attachPathParamsToRequestIfExists namedKeyRegExp ''/user/42'' (regexEntry ''/user/:id'')
       (emptyBagRequest ''/user/42'')
     = Normal True ((emptyBagRequest ''/user/42'')\<lparr>request_params := Some [''id'' \<mapsto> ''42'']\<rparr>)"
proof -
  let ?e = "regexEntry ''/user/:id''"
  let ?r = "emptyBagRequest ''/user/42''"
  have pattern: "regexCheckNamedPath ''/user/:id''" "hd ''/user/:id'' = CHR ''/''"
    by (simp_all add: regexCheckNamedPath_def segmentChar_def wordChar_def)
  have entry: "key ?e = snd (createNamedRouteSearchKey (split (CHR ''/'') ''/user/:id''))"
    "params ?e = fst (createNamedRouteSearchKey (split (CHR ''/'') ''/user/:id''))"
    "pathNames ?e = drop 1 (split (CHR ''/'') ''/user/:id'')"
    by (simp_all add: regexEntry_def)
  have names: "distinct (params ?e)"
    by (simp add: regexEntry_examples)
  have url: "''/user/42'' \<noteq> []" "hd ''/user/42'' = CHR ''/''"
    "\<forall>s \<in> set (drop 1 (split (CHR ''/'') ''/user/42'')). s \<noteq> [] \<and> list_all segmentChar s"
    by (simp_all add: segmentChar_def wordChar_def)
  note bag = emptyBagRequest_params [of "''/user/42''"]
  have positional: "fastPathMatch (drop 1 (split (CHR ''/'') ''/user/42'')) (pathNames ?e) ?r
      = Normal True (?r\<lparr>request_params := Some [''id'' \<mapsto> ''42'']\<rparr>)"
    unfolding example_names regexEntry_examples
    by (simp add: fastPathMatch_eq [OF bag] positionalMatch_def startsWithColon_def assignParam_def eval_nat_numeral)
  from positional_and_regex_agree [OF pattern entry names url namedKeyRegExp_compiles bag positional]
  show ?thesis
    using pattern names url(1,2) namedKeyRegExp_compiles bag positional by blast
qed

text \<open>
  Claim C5 as stated fails in two ways. The positional loop writes from right to left and
  the regular-expression loop from left to right, so for \<^verbatim>\<open>/:a/:a\<close> and \<^verbatim>\<open>/x/y\<close> the
  first leaves \<open>a = x\<close> and the second \<open>a = y\<close>. A parameter segment matches any text
  positionally, while the group matches characters of \<^verbatim>\<open>[\w-.~]\<close> only and the key is
  not anchored, so for \<^verbatim>\<open>/user/:id\<close> and \<^verbatim>\<open>/user/a@b\<close> the first leaves \<open>id = a@b\<close> and
  the second \<open>id = a\<close>.
\<close>

theorem repeated_name_counterexample:
  "fastPathMatch (drop 1 (split (CHR ''/'') ''/x/y'')) (pathNames (regexEntry ''/:a/:a'')) (emptyBagRequest ''/x/y'')
     = Normal True ((emptyBagRequest ''/x/y'')\<lparr>request_params := Some [''a'' \<mapsto> ''x'']\<rparr>) \<and>
   attachPathParamsToRequestIfExists namedKeyRegExp ''/x/y'' (regexEntry ''/:a/:a'') (emptyBagRequest ''/x/y'')
     = Normal True ((emptyBagRequest ''/x/y'')\<lparr>request_params := Some [''a'' \<mapsto> ''y'']\<rparr>) \<and>
   fastPathMatch (drop 1 (split (CHR ''/'') ''/user/a@b'')) (pathNames (regexEntry ''/user/:id''))
       (emptyBagRequest ''/user/a@b'')
     = Normal True ((emptyBagRequest ''/user/a@b'')\<lparr>request_params := Some [''id'' \<mapsto> ''a@b'']\<rparr>) \<and>
   attachPathParamsToRequestIfExists namedKeyRegExp ''/user/a@b'' (regexEntry ''/user/:id'')
       (emptyBagRequest ''/user/a@b'')
     = Normal True ((emptyBagRequest ''/user/a@b'')\<lparr>request_params := Some [''id'' \<mapsto> ''a'']\<rparr>)"
proof -
  note bag = emptyBagRequest_params
  have p1: "fastPathMatch (drop 1 (split (CHR ''/'') ''/x/y'')) (pathNames (regexEntry ''/:a/:a'')) (emptyBagRequest ''/x/y'')
     = Normal True ((emptyBagRequest ''/x/y'')\<lparr>request_params := Some [''a'' \<mapsto> ''x'']\<rparr>)"
    unfolding example_names regexEntry_examples
    by (simp add: fastPathMatch_eq [OF bag] positionalMatch_def startsWithColon_def assignParam_def eval_nat_numeral)
  have r1: "attachPathParamsToRequestIfExists namedKeyRegExp ''/x/y'' (regexEntry ''/:a/:a'') (emptyBagRequest ''/x/y'')
     = Normal True ((emptyBagRequest ''/x/y'')\<lparr>request_params := Some [''a'' \<mapsto> ''y'']\<rparr>)"
    by (simp add: attachPathParamsToRequestIfExists_def regexEntry_examples example_exec attachLoop_eq [OF bag]
        assignParam_def)
  have p2: "fastPathMatch (drop 1 (split (CHR ''/'') ''/user/a@b'')) (pathNames (regexEntry ''/user/:id''))
       (emptyBagRequest ''/user/a@b'')
     = Normal True ((emptyBagRequest ''/user/a@b'')\<lparr>request_params := Some [''id'' \<mapsto> ''a@b'']\<rparr>)"
    unfolding example_names regexEntry_examples
    by (simp add: fastPathMatch_eq [OF bag] positionalMatch_def startsWithColon_def assignParam_def eval_nat_numeral)
  have r2: "attachPathParamsToRequestIfExists namedKeyRegExp ''/user/a@b'' (regexEntry ''/user/:id'')
       (emptyBagRequest ''/user/a@b'')
     = Normal True ((emptyBagRequest ''/user/a@b'')\<lparr>request_params := Some [''id'' \<mapsto> ''a'']\<rparr>)"
    by (simp add: attachPathParamsToRequestIfExists_def regexEntry_examples example_exec attachLoop_eq [OF bag]
        assignParam_def)
  show ?thesis
    using p1 r1 p2 r2 by blast
qed

end
